theory Spec2Isabelle
  imports Complex_Main
begin

section \<open>Python values\<close>

text \<open>
  A Python \<open>str\<close> is a sequence of Unicode code points; it is modelled as a list of
  natural numbers, so that the cursor glyph U+2588 is one character, as in the source.
  Python's \<open>float\<close> times and speeds are modelled as real numbers. In the sections that
  follow the arithmetic is exact; the rounding of IEEE doubles is added in the section on
  the puzzle scene in double precision, for the property that depends on it.
\<close>

type_synonym pystr = "nat list"

definition str :: "string \<Rightarrow> pystr" where
  "str s = map of_char s"

abbreviation newline :: nat where
  "newline \<equiv> 10"

datatype error = ZeroDivisionError | IndexError | ValueError | RuntimeError

definition py_div :: "real \<Rightarrow> real \<Rightarrow> error + real" where
  "py_div a b = (if b = 0 then Inl ZeroDivisionError else Inr (a / b))"

definition py_mod :: "real \<Rightarrow> real \<Rightarrow> error + real" where
  \<comment> \<open>float \<open>%\<close>: the result has the sign of the divisor\<close>
  "py_mod a b = (if b = 0 then Inl ZeroDivisionError else Inr (a - b * of_int \<lfloor>a / b\<rfloor>))"

definition py_int :: "real \<Rightarrow> int" where
  \<comment> \<open>\<open>int(x)\<close> truncates towards zero\<close>
  "py_int x = (if 0 \<le> x then \<lfloor>x\<rfloor> else \<lceil>x\<rceil>)"

definition py_slice_to :: "'a list \<Rightarrow> int \<Rightarrow> 'a list" where
  \<comment> \<open>\<open>xs[:n]\<close>: a negative bound counts from the end\<close>
  "py_slice_to xs n = (if n < 0 then take (nat (int (length xs) + n)) xs else take (nat n) xs)"

definition py_slice_from :: "'a list \<Rightarrow> int \<Rightarrow> 'a list" where
  \<comment> \<open>\<open>xs[n:]\<close>\<close>
  "py_slice_from xs n = (if n < 0 then drop (nat (int (length xs) + n)) xs else drop (nat n) xs)"

definition py_getitem :: "'a list \<Rightarrow> int \<Rightarrow> error + 'a" where
  \<comment> \<open>\<open>xs[i]\<close>: an index below zero is taken from the end; outside the list it raises\<close>
  "py_getitem xs i =
     (if 0 \<le> i \<and> i < int (length xs) then Inr (xs ! nat i)
      else if i < 0 \<and> - int (length xs) \<le> i then Inr (xs ! nat (int (length xs) + i))
      else Inl IndexError)"

definition endswith :: "pystr \<Rightarrow> nat \<Rightarrow> bool" where
  "endswith s c = (s \<noteq> [] \<and> last s = c)"

definition random_choice :: "nat \<Rightarrow> pystr \<Rightarrow> error + pystr" where
  \<comment> \<open>\<open>random.choice(seq)\<close> is \<open>seq[k]\<close> for a drawn \<open>k\<close> below \<open>len(seq)\<close>; the draw
      of the generator is the argument \<open>rnd\<close>. An empty sequence raises IndexError.\<close>
  "random_choice rnd seq =
     (if seq = [] then Inl IndexError else Inr [seq ! (rnd mod length seq)])"

section \<open>video_config\<close>

record config =
  W :: int
  H :: int
  FPS :: real
  TITLE_FONT_SIZE :: int
  PUZZLE_LINE_FONT_SIZE :: int
  EXPLANATION_FONT_SIZE :: int
  COUNTDOWN_FONT_SIZE :: int
  SIGNOFF_FONT_SIZE :: int
  PRE_COUNTDOWN_PAUSE_S :: real
  COUNTDOWN_SECONDS :: int
  REVEAL_TO_EXPLANATION_DELAY_S :: real
  EXPLANATION_HOLD_DURATION_S :: real
  SIGNOFF_TYPING_SPEED_CPS :: real
  SIGNOFF_HOLD_DURATION_S :: real
  SIGNOFF_GAP_S :: real
  SIGNOFF_LINES :: "(pystr \<times> int) list"
  TITLE_STROKE_WIDTH :: int
  PUZZLE_STROKE_WIDTH :: int
  EXPLANATION_TYPING_SPEED_CPS :: real
  PUZZLE_TYPING_SPEED_CPS :: real
  TITLE_TYPING_SPEED_CPS :: real
  CURSOR_CHAR :: pystr
  CURSOR_BLINK_RATE_HZ :: real
  TEXT_GLITCH_ENABLED :: bool
  TEXT_GLITCH_SPEED_HZ :: real
  TEXT_GLITCH_MAX_AFFECTED_CHARS :: int
  TEXT_GLITCH_CHAR_SET :: pystr
  MAX_TEXT_WIDTH_PX :: int
  LINE_START_Y :: int
  MIN_VERTICAL_GAP_BETWEEN_PUZZLE_LINES :: int

definition video_config :: config where
  "video_config = \<lparr>
     W = 1080, H = 1920, FPS = 30,
     TITLE_FONT_SIZE = 75, PUZZLE_LINE_FONT_SIZE = 70, EXPLANATION_FONT_SIZE = 65,
     COUNTDOWN_FONT_SIZE = 180, SIGNOFF_FONT_SIZE = 70,
     PRE_COUNTDOWN_PAUSE_S = 0, COUNTDOWN_SECONDS = 5,
     REVEAL_TO_EXPLANATION_DELAY_S = 1 / 2, EXPLANATION_HOLD_DURATION_S = 3 / 2,
     SIGNOFF_TYPING_SPEED_CPS = 30, SIGNOFF_HOLD_DURATION_S = 3 / 2, SIGNOFF_GAP_S = 1 / 5,
     SIGNOFF_LINES = [(str ''WERE YOU SUCCESSFUL?'', 400), (str ''LIKE TO CONFIRM'', 500),
                      (str ''SUBSCRIBE FOR'', 1050), (str ''FURTHER TESTING'', 1150)],
     TITLE_STROKE_WIDTH = 2, PUZZLE_STROKE_WIDTH = 2,
     EXPLANATION_TYPING_SPEED_CPS = 30, PUZZLE_TYPING_SPEED_CPS = 3, TITLE_TYPING_SPEED_CPS = 3,
     CURSOR_CHAR = [9608], CURSOR_BLINK_RATE_HZ = 2,
     TEXT_GLITCH_ENABLED = True, TEXT_GLITCH_SPEED_HZ = 3, TEXT_GLITCH_MAX_AFFECTED_CHARS = 5,
     TEXT_GLITCH_CHAR_SET = str ''ABCDEFGHIJKLMNOPQRSTUVWXYZ0123456789'',
     MAX_TEXT_WIDTH_PX = 980, LINE_START_Y = 700,
     MIN_VERTICAL_GAP_BETWEEN_PUZZLE_LINES = 40 \<rparr>"

section \<open>The typing animation\<close>

text \<open>
  The rasteriser (PIL) is outside the repository. What the builders read from it is the
  size of the image that \<open>text_img\<close> returns for a text, a font size and a stroke width;
  that function is the parameter \<open>img_size\<close> of the model. A frame is modelled by the
  text that \<open>make_frame\<close> hands to \<open>text_img\<close>.
\<close>

type_synonym raster = "pystr \<Rightarrow> int \<Rightarrow> int \<Rightarrow> int \<times> int"

record glitch_state =
  last_glitch_time :: real
  last_glitch_string :: pystr

definition initial_glitch_state :: glitch_state where
  "initial_glitch_state = \<lparr> last_glitch_time = - 1, last_glitch_string = [] \<rparr>"

definition total_chars :: "pystr \<Rightarrow> nat" where
  \<comment> \<open>\<open>len(text_to_type.replace("\n", ""))\<close>\<close>
  "total_chars text_to_type = length (filter (\<lambda>c. c \<noteq> newline) text_to_type)"

definition revealed_text :: "pystr \<Rightarrow> real \<Rightarrow> real \<Rightarrow> pystr" where
  \<comment> \<open>\<open>num_chars = int(t * speed_cps); current_text = "".join(flat[:num_chars])\<close>\<close>
  "revealed_text flat speed_cps t = py_slice_to flat (py_int (t * speed_cps))"

definition glitch_stage ::
  "config \<Rightarrow> real \<Rightarrow> glitch_state \<Rightarrow> nat \<Rightarrow> real \<Rightarrow> pystr \<Rightarrow> error + pystr \<times> glitch_state" where
  "glitch_stage cfg duration st rnd t current_text =
     (if \<not> TEXT_GLITCH_ENABLED cfg then Inr (current_text, st)
      else case py_div 1 (FPS cfg) of
        Inl e \<Rightarrow> Inl e
      | Inr frame_period \<Rightarrow>
          if \<not> t < duration - frame_period then Inr (current_text, st)
          else case py_div 1 (TEXT_GLITCH_SPEED_HZ cfg) of
            Inl e \<Rightarrow> Inl e
          | Inr glitch_period \<Rightarrow>
              if t - last_glitch_time st \<ge> glitch_period
              then (case random_choice rnd (TEXT_GLITCH_CHAR_SET cfg) of
                      Inl e \<Rightarrow> Inl e
                    | Inr g \<Rightarrow> Inr (current_text @ g,
                               \<lparr> last_glitch_time = t, last_glitch_string = g \<rparr>))
              else Inr (current_text @ last_glitch_string st, st))"

definition show_cursor :: "config \<Rightarrow> real \<Rightarrow> real \<Rightarrow> real \<Rightarrow> error + bool" where
  \<comment> \<open>\<open>(t < duration) and ((t % (1.0 / CURSOR_BLINK_RATE_HZ)) < cursor_on_dur)\<close>\<close>
  "show_cursor cfg duration cursor_on_dur t =
     (if \<not> t < duration then Inr False
      else case py_div 1 (CURSOR_BLINK_RATE_HZ cfg) of
        Inl e \<Rightarrow> Inl e
      | Inr period \<Rightarrow>
          (case py_mod t period of
             Inl e \<Rightarrow> Inl e
           | Inr m \<Rightarrow> Inr (m < cursor_on_dur)))"

definition place_cursor :: "config \<Rightarrow> pystr \<Rightarrow> int \<Rightarrow> pystr \<Rightarrow> error + pystr" where
  "place_cursor cfg flat num_chars render_text =
     (if endswith render_text newline then Inr (render_text @ CURSOR_CHAR cfg)
      else if int (length flat) > num_chars
      then (case py_getitem flat num_chars of
              Inl e \<Rightarrow> Inl e
            | Inr c \<Rightarrow>
                if c = newline
                then Inr (py_slice_to flat num_chars @ CURSOR_CHAR cfg @ py_slice_from flat num_chars)
                else Inr (render_text @ CURSOR_CHAR cfg))
      else Inr (render_text @ CURSOR_CHAR cfg))"

definition make_frame ::
  "config \<Rightarrow> pystr \<Rightarrow> real \<Rightarrow> real \<Rightarrow> real \<Rightarrow> glitch_state \<Rightarrow> nat \<Rightarrow> real
     \<Rightarrow> error + pystr \<times> glitch_state" where
  "make_frame cfg flat speed_cps duration cursor_on_dur st rnd t =
     (let num_chars = py_int (t * speed_cps);
          current_text = revealed_text flat speed_cps t
      in case glitch_stage cfg duration st rnd t current_text of
           Inl e \<Rightarrow> Inl e
         | Inr (render_text, st') \<Rightarrow>
             (case show_cursor cfg duration cursor_on_dur t of
                Inl e \<Rightarrow> Inl e
              | Inr False \<Rightarrow> Inr (render_text, st')
              | Inr True \<Rightarrow>
                  (case place_cursor cfg flat num_chars render_text of
                     Inl e \<Rightarrow> Inl e
                   | Inr txt \<Rightarrow> Inr (txt, st'))))"

record typing_result =
  clip_start :: real
  clip_duration :: real
  clip_pos_y :: int
  clip_frame :: "glitch_state \<Rightarrow> nat \<Rightarrow> real \<Rightarrow> error + pystr \<times> glitch_state"
  final_text :: pystr
  canvas_size :: "int \<times> int"
  anchor :: "int \<times> int"

definition clip_end :: "typing_result \<Rightarrow> real" where
  "clip_end r = clip_start r + clip_duration r"

definition create_typing_animation_clip ::
  "config \<Rightarrow> raster \<Rightarrow> pystr \<Rightarrow> int \<Rightarrow> real \<Rightarrow> int \<Rightarrow> real \<Rightarrow> int
     \<Rightarrow> error + typing_result option" where
  "create_typing_animation_clip cfg img_size text_to_type y_pos start_delay font_size speed_cps
       stroke_width =
     (if text_to_type = [] then Inr None
      else case py_div 1 (CURSOR_BLINK_RATE_HZ cfg * 2) of
        Inl e \<Rightarrow> Inl e
      | Inr cursor_on_dur \<Rightarrow>
          let widest_glitch = replicate (nat (TEXT_GLITCH_MAX_AFFECTED_CHARS cfg)) (77::nat);
              sizing_text = text_to_type @ widest_glitch @ CURSOR_CHAR cfg;
              frame = img_size sizing_text font_size stroke_width;
              final = img_size text_to_type font_size stroke_width;
              final_x = (fst frame - fst final) div 2;
              final_y = (snd frame - snd final) div 2
          in case py_div (real (total_chars text_to_type)) (max speed_cps (1 / 1000000)) of
               Inl e \<Rightarrow> Inl e
             | Inr duration \<Rightarrow>
                 Inr (Some \<lparr> clip_start = start_delay, clip_duration = duration,
                             clip_pos_y = y_pos,
                             clip_frame = make_frame cfg text_to_type speed_cps duration
                                            cursor_on_dur,
                             final_text = text_to_type, canvas_size = frame,
                             anchor = (final_x, final_y) \<rparr>))"

text \<open>A fixed-pitch rasteriser, used where a concrete one is needed: every glyph is a
  \<open>font_size \<times> font_size\<close> box and the stroke widens the image on each side.\<close>

definition box_raster :: raster where
  "box_raster txt font_size stroke_width =
     (max 1 (int (length txt) * font_size + 2 * stroke_width), max 1 (font_size + 2 * stroke_width))"

text \<open>
  The closure \<open>make_frame\<close> keeps \<open>last_glitch_time\<close> and \<open>last_glitch_string\<close> between
  calls. The states it can be in are the initial one and those left by a frame at a
  sample time \<open>t \<ge> 0\<close> (the renderer samples a clip from \<open>t = 0\<close> on).
\<close>

inductive sampled :: "config \<Rightarrow> pystr \<Rightarrow> real \<Rightarrow> real \<Rightarrow> real \<Rightarrow> glitch_state \<Rightarrow> bool"
  for cfg flat speed_cps duration cursor_on_dur where
  sampled_init: "sampled cfg flat speed_cps duration cursor_on_dur initial_glitch_state"
| sampled_frame: "sampled cfg flat speed_cps duration cursor_on_dur st \<Longrightarrow> 0 \<le> t \<Longrightarrow>
     make_frame cfg flat speed_cps duration cursor_on_dur st rnd t = Inr (shown, st') \<Longrightarrow>
     sampled cfg flat speed_cps duration cursor_on_dur st'"

definition glitch_inv :: "config \<Rightarrow> glitch_state \<Rightarrow> bool" where
  "glitch_inv cfg st = (st = initial_glitch_state
      \<or> (\<exists>g \<in> set (TEXT_GLITCH_CHAR_SET cfg). last_glitch_string st = [g]))"

section \<open>Wrapping text to a pixel width\<close>

text \<open>
  \<open>_wrap_to_width\<close> measures the text with the font and, when it is too wide, wraps it
  with the standard library's \<open>textwrap.TextWrapper(width=width_chars,
  break_long_words=True, replace_whitespace=False)\<close>. Two things are taken as given, as
  fields of the record \<open>env\<close>: the measure \<open>_text_length(fnt, txt)\<close> of the font at a
  size, and the splitting of a text into chunks by the library's regular expression
  \<open>wordsep_re\<close>. The tab expansion and the loop of \<open>_wrap_chunks\<close> with
  \<open>_handle_long_word\<close> follow the library (CPython 3.10 and later); the chunks are kept
  in reading order, where the library pops them from a reversed list.
\<close>

definition py_isspace :: "nat \<Rightarrow> bool" where
  \<comment> \<open>the characters that \<open>str.strip()\<close> removes\<close>
  "py_isspace c = ((9 \<le> c \<and> c \<le> 13) \<or> (28 \<le> c \<and> c \<le> 32) \<or> c = 133 \<or> c = 160
      \<or> c = 5760 \<or> (8192 \<le> c \<and> c \<le> 8202) \<or> c = 8232 \<or> c = 8233 \<or> c = 8239
      \<or> c = 8287 \<or> c = 12288)"

definition blank :: "pystr \<Rightarrow> bool" where
  \<comment> \<open>\<open>chunk.strip() == ''\<close>\<close>
  "blank chunk = (\<forall>c \<in> set chunk. py_isspace c)"

text \<open>What a text shows apart from its spacing: its characters that are not whitespace,
  in order.\<close>

definition non_space :: "pystr \<Rightarrow> pystr" where
  "non_space s = filter (\<lambda>c. \<not> py_isspace c) s"

text \<open>\<open>text.expandtabs(tabsize)\<close>; the column starts again after a line break or a
  carriage return.\<close>

fun expandtabs :: "nat \<Rightarrow> nat \<Rightarrow> pystr \<Rightarrow> pystr" where
  "expandtabs tabsize column [] = []"
| "expandtabs tabsize column (c # cs) =
     (if c = 9
      then (if 0 < tabsize
            then replicate (tabsize - column mod tabsize) 32
                   @ expandtabs tabsize (column + (tabsize - column mod tabsize)) cs
            else expandtabs tabsize column cs)
      else c # expandtabs tabsize (if c = newline \<or> c = 13 then 0 else column + 1) cs)"

text \<open>The inner loop of \<open>_wrap_chunks\<close>: chunks are taken while they fit on the line.\<close>

fun fill_line :: "nat \<Rightarrow> nat \<Rightarrow> pystr list \<Rightarrow> pystr list \<times> pystr list" where
  "fill_line width cur_len [] = ([], [])"
| "fill_line width cur_len (c # cs) =
     (if cur_len + length c \<le> width
      then (case fill_line width (cur_len + length c) cs of (taken, rest) \<Rightarrow> (c # taken, rest))
      else ([], c # cs))"

definition rfind_hyphen :: "pystr \<Rightarrow> nat \<Rightarrow> nat option" where
  \<comment> \<open>\<open>chunk.rfind('-', 0, stop)\<close>, with \<open>None\<close> for \<open>-1\<close>\<close>
  "rfind_hyphen chunk stop =
     (case filter (\<lambda>i. chunk ! i = 45) (rev [0..<min stop (length chunk)]) of
        [] \<Rightarrow> None | i # _ \<Rightarrow> Some i)"

definition handle_long_word ::
  "nat \<Rightarrow> pystr list \<Rightarrow> nat \<Rightarrow> pystr \<Rightarrow> pystr list \<times> pystr" where
  "handle_long_word width cur_line cur_len chunk =
     (let space_left = (if width < 1 then 1 else width - cur_len);
          end = (if length chunk > space_left
                 then (case rfind_hyphen chunk space_left of
                         Some hyphen \<Rightarrow>
                           if 0 < hyphen \<and> (\<exists>c \<in> set (take hyphen chunk). c \<noteq> 45)
                           then hyphen + 1 else space_left
                       | None \<Rightarrow> space_left)
                 else space_left)
      in (cur_line @ [take end chunk], drop end chunk))"

text \<open>
  One pass of the outer loop of \<open>_wrap_chunks\<close>: \<open>started\<close> says whether a line has been
  produced already. The result is the chunks of the line (none when nothing is left for
  it) and the chunks that remain.
\<close>

definition wrap_line :: "nat \<Rightarrow> bool \<Rightarrow> pystr list \<Rightarrow> pystr list \<times> pystr list" where
  "wrap_line width started chunks =
     (let chunks1 = (if blank (hd chunks) \<and> started then tl chunks else chunks);
          (cur_line, rest) = fill_line width 0 chunks1;
          (cur_line2, rest2) =
             (if rest \<noteq> [] \<and> length (hd rest) > width
              then (case handle_long_word width cur_line (length (concat cur_line)) (hd rest) of
                      (l, remainder) \<Rightarrow> (l, remainder # tl rest))
              else (cur_line, rest));
          cur_line3 = (if cur_line2 \<noteq> [] \<and> blank (last cur_line2) then butlast cur_line2
                       else cur_line2)
      in (cur_line3, rest2))"

definition chunks_size :: "pystr list \<Rightarrow> nat" where
  "chunks_size chunks = length (concat chunks) + length chunks"

function wrap_chunks :: "nat \<Rightarrow> pystr list \<Rightarrow> pystr list \<Rightarrow> pystr list" where
  "wrap_chunks width lines chunks =
     (if chunks = [] then lines
      else case wrap_line width (lines \<noteq> []) chunks of
        (cur_line, rest) \<Rightarrow>
          wrap_chunks width (if cur_line \<noteq> [] then lines @ [concat cur_line] else lines) rest)"
  by pat_completeness auto

definition textwrap_wrap :: "(pystr \<Rightarrow> pystr list) \<Rightarrow> int \<Rightarrow> pystr \<Rightarrow> error + pystr list" where
  "textwrap_wrap split width text =
     (let chunks = filter (\<lambda>c. c \<noteq> []) (split (expandtabs 8 0 text))
      in if width \<le> 0 then Inl ValueError else Inr (wrap_chunks (nat width) [] chunks))"

fun join_lines :: "pystr list \<Rightarrow> pystr" where
  "join_lines [] = []"
| "join_lines [l] = l"
| "join_lines (l # ls) = l @ newline # join_lines ls"

text \<open>
  For closed examples: the chunks of a text without hyphens are its maximal runs of
  whitespace (the six ASCII characters of \<open>textwrap._whitespace\<close>) and of other
  characters, which is how \<open>wordsep_re\<close> splits such a text.
\<close>

definition ascii_space :: "nat \<Rightarrow> bool" where
  "ascii_space c = (c = 9 \<or> c = 10 \<or> c = 11 \<or> c = 12 \<or> c = 13 \<or> c = 32)"

fun whitespace_split :: "pystr \<Rightarrow> pystr list" where
  "whitespace_split [] = []"
| "whitespace_split (c # cs) =
     (case whitespace_split cs of
        [] \<Rightarrow> [[c]]
      | (w # ws) \<Rightarrow> if ascii_space c = ascii_space (hd w) then (c # w) # ws else [c] # w # ws)"

record env =
  text_length :: "int \<Rightarrow> pystr \<Rightarrow> real"
  img_size :: raster
  wordsep_split :: "pystr \<Rightarrow> pystr list"
  upper :: "pystr \<Rightarrow> pystr"

definition width_chars :: "env \<Rightarrow> int \<Rightarrow> int \<Rightarrow> int" where
  "width_chars e font_size max_width =
     (let a = text_length e font_size (str ''a'');
          avg_char = (if a \<noteq> 0 then a else real_of_int font_size * (1 / 2))
      in max 1 (py_int (real_of_int max_width / max avg_char 1)))"

definition wrap_to_width :: "env \<Rightarrow> pystr \<Rightarrow> int \<Rightarrow> int \<Rightarrow> error + pystr" where
  "wrap_to_width e txt font_size max_width =
     (if text_length e font_size txt \<le> real_of_int max_width then Inr txt
      else case textwrap_wrap (wordsep_split e) (width_chars e font_size max_width) txt of
        Inl err \<Rightarrow> Inl err
      | Inr lines \<Rightarrow> Inr (join_lines lines))"

text \<open>The lines of a text, as drawn: the pieces between line breaks.\<close>

fun text_lines :: "pystr \<Rightarrow> pystr list" where
  "text_lines [] = [[]]"
| "text_lines (c # cs) =
     (if c = newline then [] # text_lines cs
      else (c # hd (text_lines cs)) # tl (text_lines cs))"

text \<open>
  A concrete environment for closed examples: every glyph is \<open>0.6 * font_size\<close> wide
  (the estimate \<open>_text_length\<close> falls back on), chunks are split at whitespace, and
  upper-casing is that of the ASCII letters.
\<close>

definition ascii_upper :: "pystr \<Rightarrow> pystr" where
  "ascii_upper s = map (\<lambda>c. if 97 \<le> c \<and> c \<le> 122 then c - 32 else c) s"

definition fixed_pitch :: env where
  "fixed_pitch = \<lparr> text_length = (\<lambda>font_size s. real (length s) * (real_of_int font_size * (3 / 5))),
       img_size = box_raster, wordsep_split = whitespace_split, upper = ascii_upper \<rparr>"

section \<open>The puzzle scene\<close>

text \<open>
  A clip of the composition is a layer: what it shows, its start, its duration and its
  vertical position; the order of the list is the order of composition. The \<open>role\<close> of
  a layer says which statement of the builder made it, so that the properties below can
  name a layer; the clips of the source carry no such tag. A typing clip ends at its
  start plus its duration, and so does an image clip made by \<open>pil_to_clip\<close>. Colours
  and the pixels of the images are left out.
\<close>

datatype role = TitleTyping | LineTyping nat | CountdownDigit | ExplanationTyping
  | ExplanationHold | TitleHold | LineHold nat | SignoffTyping nat | SignoffHold nat

datatype picture = Typing pystr | Still pystr | Number int

record layer =
  role :: role
  picture :: picture
  start :: real
  duration :: real
  pos_y :: int

definition layer_end :: "layer \<Rightarrow> real" where
  "layer_end c = start c + duration c"

definition typing_layer :: "role \<Rightarrow> typing_result \<Rightarrow> layer" where
  "typing_layer r res = \<lparr> role = r, picture = Typing (final_text res), start = clip_start res,
     duration = clip_duration res, pos_y = clip_pos_y res \<rparr>"

definition pil_to_clip :: "role \<Rightarrow> picture \<Rightarrow> real \<Rightarrow> real \<Rightarrow> int \<Rightarrow> layer" where
  "pil_to_clip r img start_time dur y = \<lparr> role = r, picture = img, start = start_time,
     duration = dur, pos_y = y \<rparr>"

record hold =
  h_index :: nat
  h_img :: pystr
  h_size :: "int \<times> int"
  h_anchor :: "int \<times> int"
  h_pos_y :: int
  h_start :: real
  is_anomaly :: bool

record line_state =
  clips :: "layer list"
  holds :: "hold list"
  ends :: "real list"
  y_pos :: int
  current_time :: real

fun type_lines ::
  "config \<Rightarrow> raster \<Rightarrow> int \<Rightarrow> (nat \<times> pystr) list \<Rightarrow> line_state \<Rightarrow> error + line_state" where
  "type_lines cfg img index_of_anomaly [] s = Inr s"
| "type_lines cfg img index_of_anomaly ((i, line) # rest) s =
     (case create_typing_animation_clip cfg img line (y_pos s) (current_time s)
             (PUZZLE_LINE_FONT_SIZE cfg) (PUZZLE_TYPING_SPEED_CPS cfg) (PUZZLE_STROKE_WIDTH cfg) of
        Inl e \<Rightarrow> Inl e
      | Inr None \<Rightarrow> type_lines cfg img index_of_anomaly rest s
      | Inr (Some res) \<Rightarrow>
          type_lines cfg img index_of_anomaly rest
            \<lparr> clips = clips s @ [typing_layer (LineTyping i) res],
              holds = holds s @ [\<lparr> h_index = i, h_img = final_text res, h_size = canvas_size res,
                                   h_anchor = anchor res, h_pos_y = y_pos s, h_start = clip_end res,
                                   is_anomaly = (int i = index_of_anomaly) \<rparr>],
              ends = ends s @ [clip_end res],
              y_pos = y_pos s + snd (canvas_size res) + MIN_VERTICAL_GAP_BETWEEN_PUZZLE_LINES cfg,
              current_time = clip_end res \<rparr>)"

fun py_max :: "real list \<Rightarrow> error + real" where
  "py_max [] = Inl ValueError"
| "py_max [x] = Inr x"
| "py_max (x # xs) = (case py_max xs of Inl e \<Rightarrow> Inl e | Inr m \<Rightarrow> Inr (max x m))"

function range_down :: "int \<Rightarrow> int list" where
  "range_down n = (if 0 < n then n # range_down (n - 1) else [])"
  by pat_completeness auto
termination
  by (relation "measure nat") auto

definition countdown_clips :: "config \<Rightarrow> real \<Rightarrow> layer list" where
  "countdown_clips cfg countdown_start =
     map (\<lambda>(i, sec). pil_to_clip CountdownDigit (Number sec) (countdown_start + real i) 1
                         (H cfg - 500))
       (enumerate 0 (range_down (COUNTDOWN_SECONDS cfg)))"

text \<open>
  The hold layers of the lines. The duration of a hold is \<open>max(0.0, hold_end_time -
  h["start"])\<close>; in this section the difference is exact, so that a hold ends exactly at
  its end time. \<open>fl_hold_clips\<close> below rounds the difference as the source does, and so
  does \<open>fl_puzzle_timeline\<close> for the hold of the title.
\<close>

fun hold_clips :: "real \<Rightarrow> real \<Rightarrow> hold list \<Rightarrow> layer list" where
  "hold_clips total_duration reveal_start_time [] = []"
| "hold_clips total_duration reveal_start_time (h # hs) =
     (let hold_end_time = (if is_anomaly h then total_duration else reveal_start_time);
          hold_dur = max 0 (hold_end_time - h_start h)
      in (if hold_dur > 0
          then [pil_to_clip (LineHold (h_index h)) (Still (h_img h)) (h_start h) hold_dur (h_pos_y h)]
          else [])
         @ hold_clips total_duration reveal_start_time hs)"

definition expl_clips :: "config \<Rightarrow> typing_result option \<Rightarrow> layer list" where
  "expl_clips cfg res = (case res of
       None \<Rightarrow> []
     | Some r \<Rightarrow> [typing_layer ExplanationTyping r,
                  pil_to_clip ExplanationHold (Still (final_text r)) (clip_end r)
                    (EXPLANATION_HOLD_DURATION_S cfg) 300])"

text \<open>
  The scene: the clips composed over the background, the duration of the background
  (\<open>total_duration\<close>), and the local variables \<open>last_line_end\<close>, \<open>countdown_start\<close> and
  \<open>reveal_start_time\<close> of \<open>build_puzzle_clip\<close> that the properties speak about.
  \<open>puzzle_timeline\<close> is the body of \<open>build_puzzle_clip\<close> after the three texts are
  wrapped.
\<close>

record scene =
  layers :: "layer list"
  total_duration :: real
  last_line_end :: real
  countdown_start :: real
  reveal_start_time :: real

definition puzzle_timeline ::
  "config \<Rightarrow> raster \<Rightarrow> int \<Rightarrow> pystr \<Rightarrow> pystr list \<Rightarrow> pystr \<Rightarrow> error + scene" where
  "puzzle_timeline cfg img index_of_anomaly wrapped_title wrapped_lines wrapped_expl =
     (case create_typing_animation_clip cfg img wrapped_title 250 (1 / 5) (TITLE_FONT_SIZE cfg)
             (TITLE_TYPING_SPEED_CPS cfg) (TITLE_STROKE_WIDTH cfg) of
        Inl e \<Rightarrow> Inl e
      | Inr None \<Rightarrow> Inl RuntimeError
      | Inr (Some title_res) \<Rightarrow>
          (case type_lines cfg img index_of_anomaly (enumerate 0 wrapped_lines)
                  \<lparr> clips = [typing_layer TitleTyping title_res], holds = [], ends = [],
                    y_pos = LINE_START_Y cfg, current_time = clip_end title_res \<rparr> of
             Inl e \<Rightarrow> Inl e
           | Inr s \<Rightarrow>
               (case (if ends s \<noteq> [] then py_max (ends s) else Inr (current_time s)) of
                  Inl e \<Rightarrow> Inl e
                | Inr line_end \<Rightarrow>
                    let cd_start = line_end + PRE_COUNTDOWN_PAUSE_S cfg;
                        reveal = cd_start + real_of_int (COUNTDOWN_SECONDS cfg);
                        expl_start_time = reveal + REVEAL_TO_EXPLANATION_DELAY_S cfg
                    in (case create_typing_animation_clip cfg img wrapped_expl 300 expl_start_time
                               (EXPLANATION_FONT_SIZE cfg) (EXPLANATION_TYPING_SPEED_CPS cfg)
                               (PUZZLE_STROKE_WIDTH cfg) of
                          Inl e \<Rightarrow> Inl e
                        | Inr res \<Rightarrow>
                            let total = (case res of
                                           None \<Rightarrow> reveal
                                         | Some r \<Rightarrow> clip_end r + EXPLANATION_HOLD_DURATION_S cfg);
                                title_hold = pil_to_clip TitleHold (Still (final_text title_res))
                                   (clip_end title_res) (max 0 (reveal - clip_end title_res)) 250
                            in Inr \<lparr> layers = clips s @ countdown_clips cfg cd_start @ expl_clips cfg res
                                       @ [title_hold] @ hold_clips total reveal (holds s),
                                     total_duration = total, last_line_end = line_end,
                                     countdown_start = cd_start, reveal_start_time = reveal \<rparr>))))"

fun wrap_all :: "env \<Rightarrow> pystr list \<Rightarrow> int \<Rightarrow> int \<Rightarrow> error + pystr list" where
  "wrap_all e [] font_size max_width = Inr []"
| "wrap_all e (line # rest) font_size max_width =
     (case wrap_to_width e line font_size max_width of
        Inl err \<Rightarrow> Inl err
      | Inr w \<Rightarrow> (case wrap_all e rest font_size max_width of
                    Inl err \<Rightarrow> Inl err
                  | Inr ws \<Rightarrow> Inr (w # ws)))"

definition build_puzzle_clip ::
  "env \<Rightarrow> config \<Rightarrow> pystr list \<Rightarrow> int \<Rightarrow> pystr \<Rightarrow> pystr \<Rightarrow> error + scene" where
  "build_puzzle_clip e cfg lines index_of_anomaly explanation title =
     (case wrap_to_width e title (TITLE_FONT_SIZE cfg) (MAX_TEXT_WIDTH_PX cfg) of
        Inl err \<Rightarrow> Inl err
      | Inr wrapped_title \<Rightarrow>
          (case wrap_all e lines (PUZZLE_LINE_FONT_SIZE cfg) (MAX_TEXT_WIDTH_PX cfg) of
             Inl err \<Rightarrow> Inl err
           | Inr wrapped_lines \<Rightarrow>
               (case wrap_to_width e (upper e explanation) (EXPLANATION_FONT_SIZE cfg)
                       (MAX_TEXT_WIDTH_PX cfg) of
                  Inl err \<Rightarrow> Inl err
                | Inr wrapped_expl \<Rightarrow>
                    puzzle_timeline cfg (img_size e) index_of_anomaly wrapped_title wrapped_lines
                      wrapped_expl)))"

definition is_typing :: "layer \<Rightarrow> bool" where
  "is_typing c = (case role c of LineTyping i \<Rightarrow> True | TitleTyping \<Rightarrow> True | _ \<Rightarrow> False)"

text \<open>What the line loop keeps true.\<close>

definition lines_inv :: "int \<Rightarrow> line_state \<Rightarrow> bool" where
  "lines_inv k s =
     ((\<forall>h \<in> set (holds s). is_anomaly h = (int (h_index h) = k)
          \<and> (\<exists>c \<in> set (clips s). role c = LineTyping (h_index h) \<and> layer_end c = h_start h))
      \<and> (\<forall>c \<in> set (clips s). \<forall>i. role c = LineTyping i \<longrightarrow>
            (\<exists>h \<in> set (holds s). h_index h = i \<and> h_start h = layer_end c))
      \<and> (\<forall>c \<in> set (clips s). is_typing c)
      \<and> clips s \<noteq> [] \<and> layer_end (last (clips s)) = current_time s
      \<and> (\<forall>x \<in> set (ends s). x \<le> current_time s)
      \<and> (ends s \<noteq> [] \<longrightarrow> last (ends s) = current_time s))"

section \<open>The sign-off scene and job processing\<close>

text \<open>
  \<open>build_signoff_clip\<close> returns \<open>None\<close> when no line is typed. Of \<open>process_job\<close> the
  part up to the two builders is modelled: the puzzle is the three entries read from
  \<open>puzzle.json\<close> (an absent key is \<open>None\<close>), the title is the result of
  \<open>make_video_title\<close>; reading the files, rendering and the manifest are left out.
\<close>

record signoff =
  signoff_layers :: "layer list"
  signoff_duration :: real

fun type_signoff ::
  "config \<Rightarrow> raster \<Rightarrow> (nat \<times> pystr \<times> int) list
     \<Rightarrow> layer list \<times> (nat \<times> typing_result) list \<times> real
     \<Rightarrow> error + layer list \<times> (nat \<times> typing_result) list \<times> real" where
  "type_signoff cfg img [] st = Inr st"
| "type_signoff cfg img ((i, text_i, y) # rest) (cl, typed, now) =
     (case create_typing_animation_clip cfg img text_i y now (SIGNOFF_FONT_SIZE cfg)
             (SIGNOFF_TYPING_SPEED_CPS cfg) 0 of
        Inl e \<Rightarrow> Inl e
      | Inr None \<Rightarrow> type_signoff cfg img rest (cl, typed, now)
      | Inr (Some res) \<Rightarrow>
          type_signoff cfg img rest
            (cl @ [typing_layer (SignoffTyping i) res], typed @ [(i, res)],
             clip_end res + SIGNOFF_GAP_S cfg))"

definition build_signoff_clip :: "config \<Rightarrow> raster \<Rightarrow> error + signoff option" where
  "build_signoff_clip cfg img =
     (case type_signoff cfg img (enumerate 0 (SIGNOFF_LINES cfg)) ([], [], 0) of
        Inl e \<Rightarrow> Inl e
      | Inr (cl, typed, now) \<Rightarrow>
          if typed = [] then Inr None
          else let tail = now + SIGNOFF_HOLD_DURATION_S cfg
               in Inr (Some \<lparr> signoff_layers = cl @ map (\<lambda>(i, res).
                                  pil_to_clip (SignoffHold i) (Still (final_text res)) (clip_end res)
                                    (max 0 (tail - clip_end res)) (clip_pos_y res)) typed,
                               signoff_duration = tail \<rparr>))"

text \<open>What the sign-off loop keeps true.\<close>

definition is_signoff_typing :: "layer \<Rightarrow> bool" where
  "is_signoff_typing c = (case role c of SignoffTyping i \<Rightarrow> True | _ \<Rightarrow> False)"

definition signoff_inv ::
  "config \<Rightarrow> layer list \<times> (nat \<times> typing_result) list \<times> real \<Rightarrow> bool" where
  "signoff_inv cfg st = (case st of (cl, typed, now) \<Rightarrow>
      (\<forall>c \<in> set cl. is_signoff_typing c)
      \<and> map (\<lambda>(i, res). clip_end res) typed = map layer_end cl
      \<and> (if cl = [] then now = 0 else now = layer_end (last cl) + SIGNOFF_GAP_S cfg)
      \<and> (\<forall>c \<in> set cl. layer_end c \<le> now)
      \<and> (\<forall>j. Suc j < length cl \<longrightarrow> start (cl ! Suc j) = layer_end (cl ! j) + SIGNOFF_GAP_S cfg))"

record puzzle =
  puzzle_lines_with_error :: "pystr list option"
  explanation :: "pystr option"
  text_of_erroneous_line :: "pystr option"

definition dict_get :: "'a option \<Rightarrow> 'a \<Rightarrow> 'a" where
  "dict_get entry dflt = (case entry of None \<Rightarrow> dflt | Some v \<Rightarrow> v)"

fun list_index :: "'a list \<Rightarrow> 'a \<Rightarrow> error + nat" where
  "list_index [] x = Inl ValueError"
| "list_index (y # ys) x =
     (if y = x then Inr 0
      else case list_index ys x of Inl e \<Rightarrow> Inl e | Inr i \<Rightarrow> Inr (Suc i))"

definition anomaly_index :: "puzzle \<Rightarrow> error + int" where
  "anomaly_index p =
     (case list_index (dict_get (puzzle_lines_with_error p) [])
             (dict_get (text_of_erroneous_line p) []) of
        Inr i \<Rightarrow> Inr (int i)
      | Inl ValueError \<Rightarrow> Inr 0
      | Inl e \<Rightarrow> Inl e)"

definition process_job ::
  "env \<Rightarrow> config \<Rightarrow> puzzle \<Rightarrow> pystr \<Rightarrow> error + scene \<times> signoff option" where
  "process_job e cfg p video_title =
     (case anomaly_index p of
        Inl err \<Rightarrow> Inl err
      | Inr k \<Rightarrow>
          (case build_puzzle_clip e cfg (dict_get (puzzle_lines_with_error p) []) k
                  (dict_get (explanation p) []) video_title of
             Inl err \<Rightarrow> Inl err
           | Inr puzzle_clip \<Rightarrow>
               (case build_signoff_clip cfg (img_size e) of
                  Inl err \<Rightarrow> Inl err
                | Inr signoff_clip \<Rightarrow> Inr (puzzle_clip, signoff_clip))))"

section \<open>The puzzle scene in double precision\<close>

text \<open>
  A Python \<open>float\<close> is an IEEE 754 binary64 number, and an arithmetic operation on floats
  returns the exact result rounded to the nearest double, ties to the even significand.
  \<open>double_round\<close> is that rounding, on the reals: \<open>binade x\<close> is the exponent \<open>e\<close> with
  \<open>2 ^ e \<le> \<bar>x\<bar> < 2 ^ (e + 1)\<close>, looked for within the exponents of the format, and the doubles
  around \<open>x\<close> are the multiples of \<open>2\<close> to the power \<open>max e (-1022) - 52\<close>, which covers the
  subnormal numbers. Overflow to infinity (a result beyond the largest double) is not
  modelled.
\<close>

function binade_up :: "nat \<Rightarrow> real \<Rightarrow> int" where
  "binade_up n x = (if n = 0 \<or> x < 2 then 0 else 1 + binade_up (n - 1) (x / 2))"
  by pat_completeness auto
termination
  by (relation "measure fst") auto

function binade_down :: "nat \<Rightarrow> real \<Rightarrow> int" where
  "binade_down n x = (if n = 0 \<or> 1 \<le> x then 0 else binade_down (n - 1) (2 * x) - 1)"
  by pat_completeness auto
termination
  by (relation "measure fst") auto

definition binade :: "real \<Rightarrow> int" where
  "binade x = (if 1 \<le> \<bar>x\<bar> then binade_up 1023 \<bar>x\<bar> else binade_down 1074 \<bar>x\<bar>)"

definition pow2 :: "int \<Rightarrow> real" where
  "pow2 q = (if 0 \<le> q then 2 ^ nat q else 1 / 2 ^ nat (- q))"

definition round_half_even :: "real \<Rightarrow> int" where
  "round_half_even x =
     (let f = \<lfloor>x\<rfloor>; d = x - real_of_int f
      in if d < 1 / 2 then f else if 1 / 2 < d then f + 1 else if even f then f else f + 1)"

definition double_round :: "real \<Rightarrow> real" where
  "double_round x =
     (let q = max (binade x) (- 1022) - 52
      in real_of_int (round_half_even (x / pow2 q)) * pow2 q)"

text \<open>
  The builder of the puzzle scene once more, with a rounding function \<open>rd\<close> applied to the
  result of every float operation that decides the times of the scene: the literals \<open>0.2\<close>
  and \<open>1e-6\<close>, the division that gives the duration of a typing clip, the end of a clip
  (MoviePy's \<open>with_start\<close> and \<open>with_duration\<close> set \<open>end = start + duration\<close>), the
  countdown and explanation times, and the differences that give the durations of the
  holds. The values of the configuration are taken to be doubles, as they are in
  \<open>video_config\<close>; the frame function of a typing clip is the one of the exact model.
  With the identity for \<open>rd\<close> this is the builder of the section on the puzzle scene; with
  \<open>double_round\<close> it computes the times that the source computes.
\<close>

definition fl_clip_end :: "(real \<Rightarrow> real) \<Rightarrow> typing_result \<Rightarrow> real" where
  "fl_clip_end rd res = rd (clip_start res + clip_duration res)"

definition fl_layer_end :: "(real \<Rightarrow> real) \<Rightarrow> layer \<Rightarrow> real" where
  "fl_layer_end rd c = rd (start c + duration c)"

definition fl_create_typing_animation_clip ::
  "(real \<Rightarrow> real) \<Rightarrow> config \<Rightarrow> raster \<Rightarrow> pystr \<Rightarrow> int \<Rightarrow> real \<Rightarrow> int \<Rightarrow> real \<Rightarrow> int
     \<Rightarrow> error + typing_result option" where
  "fl_create_typing_animation_clip rd cfg img text_to_type y start_delay font_size speed_cps
       stroke_width =
     (if text_to_type = [] then Inr None
      else case py_div 1 (rd (CURSOR_BLINK_RATE_HZ cfg * 2)) of
        Inl e \<Rightarrow> Inl e
      | Inr cursor_on_dur \<Rightarrow>
          let widest_glitch = replicate (nat (TEXT_GLITCH_MAX_AFFECTED_CHARS cfg)) (77::nat);
              sizing_text = text_to_type @ widest_glitch @ CURSOR_CHAR cfg;
              frame = img sizing_text font_size stroke_width;
              final = img text_to_type font_size stroke_width;
              final_x = (fst frame - fst final) div 2;
              final_y = (snd frame - snd final) div 2
          in case py_div (real (total_chars text_to_type)) (max speed_cps (rd (1 / 1000000))) of
               Inl e \<Rightarrow> Inl e
             | Inr ratio \<Rightarrow>
                 Inr (Some \<lparr> clip_start = start_delay, clip_duration = rd ratio,
                             clip_pos_y = y,
                             clip_frame = make_frame cfg text_to_type speed_cps (rd ratio)
                                            (rd cursor_on_dur),
                             final_text = text_to_type, canvas_size = frame,
                             anchor = (final_x, final_y) \<rparr>))"

fun fl_type_lines ::
  "(real \<Rightarrow> real) \<Rightarrow> config \<Rightarrow> raster \<Rightarrow> int \<Rightarrow> (nat \<times> pystr) list \<Rightarrow> line_state
     \<Rightarrow> error + line_state" where
  "fl_type_lines rd cfg img index_of_anomaly [] s = Inr s"
| "fl_type_lines rd cfg img index_of_anomaly ((i, line) # rest) s =
     (case fl_create_typing_animation_clip rd cfg img line (y_pos s) (current_time s)
             (PUZZLE_LINE_FONT_SIZE cfg) (PUZZLE_TYPING_SPEED_CPS cfg) (PUZZLE_STROKE_WIDTH cfg) of
        Inl e \<Rightarrow> Inl e
      | Inr None \<Rightarrow> fl_type_lines rd cfg img index_of_anomaly rest s
      | Inr (Some res) \<Rightarrow>
          fl_type_lines rd cfg img index_of_anomaly rest
            \<lparr> clips = clips s @ [typing_layer (LineTyping i) res],
              holds = holds s @ [\<lparr> h_index = i, h_img = final_text res, h_size = canvas_size res,
                                   h_anchor = anchor res, h_pos_y = y_pos s,
                                   h_start = fl_clip_end rd res,
                                   is_anomaly = (int i = index_of_anomaly) \<rparr>],
              ends = ends s @ [fl_clip_end rd res],
              y_pos = y_pos s + snd (canvas_size res) + MIN_VERTICAL_GAP_BETWEEN_PUZZLE_LINES cfg,
              current_time = fl_clip_end rd res \<rparr>)"

definition fl_countdown_clips :: "(real \<Rightarrow> real) \<Rightarrow> config \<Rightarrow> real \<Rightarrow> layer list" where
  "fl_countdown_clips rd cfg cd_start =
     map (\<lambda>(i, sec). pil_to_clip CountdownDigit (Number sec) (rd (cd_start + real i)) 1
                         (H cfg - 500))
       (enumerate 0 (range_down (COUNTDOWN_SECONDS cfg)))"

fun fl_hold_clips :: "(real \<Rightarrow> real) \<Rightarrow> real \<Rightarrow> real \<Rightarrow> hold list \<Rightarrow> layer list" where
  "fl_hold_clips rd total_d reveal [] = []"
| "fl_hold_clips rd total_d reveal (h # hs) =
     (let hold_end_time = (if is_anomaly h then total_d else reveal);
          hold_dur = max 0 (rd (hold_end_time - h_start h))
      in (if hold_dur > 0
          then [pil_to_clip (LineHold (h_index h)) (Still (h_img h)) (h_start h) hold_dur (h_pos_y h)]
          else [])
         @ fl_hold_clips rd total_d reveal hs)"

definition fl_expl_clips :: "(real \<Rightarrow> real) \<Rightarrow> config \<Rightarrow> typing_result option \<Rightarrow> layer list" where
  "fl_expl_clips rd cfg res = (case res of
       None \<Rightarrow> []
     | Some r \<Rightarrow> [typing_layer ExplanationTyping r,
                  pil_to_clip ExplanationHold (Still (final_text r)) (fl_clip_end rd r)
                    (EXPLANATION_HOLD_DURATION_S cfg) 300])"

definition fl_puzzle_timeline ::
  "(real \<Rightarrow> real) \<Rightarrow> config \<Rightarrow> raster \<Rightarrow> int \<Rightarrow> pystr \<Rightarrow> pystr list \<Rightarrow> pystr
     \<Rightarrow> error + scene" where
  "fl_puzzle_timeline rd cfg img index_of_anomaly wrapped_title wrapped_lines wrapped_expl =
     (case fl_create_typing_animation_clip rd cfg img wrapped_title 250 (rd (1 / 5))
             (TITLE_FONT_SIZE cfg) (TITLE_TYPING_SPEED_CPS cfg) (TITLE_STROKE_WIDTH cfg) of
        Inl e \<Rightarrow> Inl e
      | Inr None \<Rightarrow> Inl RuntimeError
      | Inr (Some title_res) \<Rightarrow>
          (case fl_type_lines rd cfg img index_of_anomaly (enumerate 0 wrapped_lines)
                  \<lparr> clips = [typing_layer TitleTyping title_res], holds = [], ends = [],
                    y_pos = LINE_START_Y cfg, current_time = fl_clip_end rd title_res \<rparr> of
             Inl e \<Rightarrow> Inl e
           | Inr s \<Rightarrow>
               (case (if ends s \<noteq> [] then py_max (ends s) else Inr (current_time s)) of
                  Inl e \<Rightarrow> Inl e
                | Inr line_end \<Rightarrow>
                    let cd_start = rd (line_end + PRE_COUNTDOWN_PAUSE_S cfg);
                        reveal = rd (cd_start + real_of_int (COUNTDOWN_SECONDS cfg));
                        expl_start_time = rd (reveal + REVEAL_TO_EXPLANATION_DELAY_S cfg)
                    in (case fl_create_typing_animation_clip rd cfg img wrapped_expl 300
                               expl_start_time (EXPLANATION_FONT_SIZE cfg)
                               (EXPLANATION_TYPING_SPEED_CPS cfg) (PUZZLE_STROKE_WIDTH cfg) of
                          Inl e \<Rightarrow> Inl e
                        | Inr res \<Rightarrow>
                            let total_d = (case res of
                                   None \<Rightarrow> reveal
                                 | Some r \<Rightarrow>
                                     rd (fl_clip_end rd r + EXPLANATION_HOLD_DURATION_S cfg));
                                title_hold = pil_to_clip TitleHold (Still (final_text title_res))
                                   (fl_clip_end rd title_res)
                                   (max 0 (rd (reveal - fl_clip_end rd title_res))) 250
                            in Inr \<lparr> layers = clips s @ fl_countdown_clips rd cfg cd_start
                                       @ fl_expl_clips rd cfg res @ [title_hold]
                                       @ fl_hold_clips rd total_d reveal (holds s),
                                     total_duration = total_d, last_line_end = line_end,
                                     countdown_start = cd_start, reveal_start_time = reveal \<rparr>))))"

definition fl_build_puzzle_clip ::
  "(real \<Rightarrow> real) \<Rightarrow> env \<Rightarrow> config \<Rightarrow> pystr list \<Rightarrow> int \<Rightarrow> pystr \<Rightarrow> pystr
     \<Rightarrow> error + scene" where
  "fl_build_puzzle_clip rd e cfg lines index_of_anomaly explanation_text title =
     (case wrap_to_width e title (TITLE_FONT_SIZE cfg) (MAX_TEXT_WIDTH_PX cfg) of
        Inl err \<Rightarrow> Inl err
      | Inr wrapped_title \<Rightarrow>
          (case wrap_all e lines (PUZZLE_LINE_FONT_SIZE cfg) (MAX_TEXT_WIDTH_PX cfg) of
             Inl err \<Rightarrow> Inl err
           | Inr wrapped_lines \<Rightarrow>
               (case wrap_to_width e (upper e explanation_text) (EXPLANATION_FONT_SIZE cfg)
                       (MAX_TEXT_WIDTH_PX cfg) of
                  Inl err \<Rightarrow> Inl err
                | Inr wrapped_expl \<Rightarrow>
                    fl_puzzle_timeline rd cfg (img_size e) index_of_anomaly wrapped_title
                      wrapped_lines wrapped_expl)))"

text \<open>What the line loop keeps true, in any rounding.\<close>

definition fl_lines_inv :: "(real \<Rightarrow> real) \<Rightarrow> int \<Rightarrow> line_state \<Rightarrow> bool" where
  "fl_lines_inv rd k s =
     ((\<forall>h \<in> set (holds s). is_anomaly h = (int (h_index h) = k)
          \<and> (\<exists>c \<in> set (clips s). role c = LineTyping (h_index h) \<and> fl_layer_end rd c = h_start h))
      \<and> (\<forall>c \<in> set (clips s). \<forall>i. role c = LineTyping i \<longrightarrow>
            (\<exists>h \<in> set (holds s). h_index h = i \<and> h_start h = fl_layer_end rd c))
      \<and> (\<forall>c \<in> set (clips s). is_typing c))"

section \<open>Properties of the typing animation\<close>

lemma py_div_clamped:
  "py_div a (max speed (1 / 1000000)) = Inr (a / max speed (1 / 1000000))"
  by (simp add: py_div_def max_def)

text \<open>
  C10. For every non-empty text and every speed, zero and negative speeds included, the
  builder divides by \<open>max(speed, 1e-6)\<close>, which is never zero: it returns a result, and
  the duration of that result is the printable count over the clamped speed, a
  non-negative number. (The only other division of the builder is by twice the cursor
  blink rate, a constant of the configuration.)
\<close>

theorem typing_duration_never_divides_by_zero:
  assumes "text_to_type \<noteq> []" and "CURSOR_BLINK_RATE_HZ cfg \<noteq> 0"
  shows "\<exists>r. create_typing_animation_clip cfg img text_to_type y start_delay
                font_size speed_cps stroke_width = Inr (Some r)
             \<and> clip_duration r = real (total_chars text_to_type) / max speed_cps (1 / 1000000)
             \<and> 0 \<le> clip_duration r"
  using assms
  by (simp add: create_typing_animation_clip_def py_div_clamped py_div_def Let_def max_def)

theorem typing_duration_never_divides_by_zero_witness:
  "str ''a'' \<noteq> [] \<and> CURSOR_BLINK_RATE_HZ video_config \<noteq> 0
   \<and> (\<exists>r. create_typing_animation_clip video_config box_raster (str ''a'') 0 0 70 0 2
              = Inr (Some r)
          \<and> clip_duration r = real (total_chars (str ''a'')) / max 0 (1 / 1000000)
          \<and> 0 \<le> clip_duration r)"
proof -
  have a: "str ''a'' \<noteq> []" by (simp add: str_def)
  have b: "CURSOR_BLINK_RATE_HZ video_config \<noteq> 0" by (simp add: video_config_def)
  show ?thesis
    using a b typing_duration_never_divides_by_zero [OF a b, of box_raster 0 0 70 0 2]
    by simp
qed

lemmas frame_defs = create_typing_animation_clip_def make_frame_def glitch_stage_def
  show_cursor_def place_cursor_def revealed_text_def py_div_def py_mod_def py_int_def
  py_slice_to_def py_slice_from_def py_getitem_def endswith_def random_choice_def
  total_chars_def initial_glitch_state_def Let_def

text \<open>
  C2 (as amended). For every non-empty text and every speed of at least \<open>1e-6\<close>
  characters per second, the duration of the typing animation is the number of
  characters other than line breaks divided by the speed.
\<close>

theorem typing_duration_is_count_over_speed:
  assumes "text_to_type \<noteq> []" and "1 / 1000000 \<le> speed_cps"
    and "CURSOR_BLINK_RATE_HZ cfg \<noteq> 0"
  shows "\<exists>r. create_typing_animation_clip cfg img text_to_type y start_delay
                font_size speed_cps stroke_width = Inr (Some r)
             \<and> clip_duration r = real (total_chars text_to_type) / speed_cps"
  using assms
  by (simp add: create_typing_animation_clip_def py_div_def Let_def max_def)

theorem typing_duration_is_count_over_speed_witness:
  "str ''2+2=4'' \<noteq> [] \<and> (1 / 1000000 :: real) \<le> 3 \<and> CURSOR_BLINK_RATE_HZ video_config \<noteq> 0
   \<and> (\<exists>r. create_typing_animation_clip video_config box_raster (str ''2+2=4'') 700 (1 / 5) 70 3 2
              = Inr (Some r)
          \<and> clip_duration r = real (total_chars (str ''2+2=4'')) / 3)"
proof -
  have a: "str ''2+2=4'' \<noteq> []" by (simp add: str_def)
  have b: "(1 / 1000000 :: real) \<le> 3" by simp
  have c: "CURSOR_BLINK_RATE_HZ video_config \<noteq> 0" by (simp add: video_config_def)
  show ?thesis
    using a b c typing_duration_is_count_over_speed [OF a b c, of box_raster 700 "1 / 5" 70 2]
    by simp
qed

text \<open>
  C2 as stated fails for a positive speed below the clamp: the one-character text
  \<open>"a"\<close> typed at \<open>1e-7\<close> characters per second gets the duration \<open>1 / 1e-6\<close>, one
  million seconds, not \<open>1 / 1e-7\<close>.
\<close>

theorem typing_duration_slow_speed_counterexample:
  "(case create_typing_animation_clip video_config box_raster (str ''a'') 0 0 70
           (1 / 10000000) 2 of
      Inr (Some r) \<Rightarrow> clip_duration r = 1000000
                     \<and> clip_duration r \<noteq> real (total_chars (str ''a'')) / (1 / 10000000)
    | _ \<Rightarrow> False)"
  by (simp add: create_typing_animation_clip_def py_div_def Let_def video_config_def str_def
      total_chars_def)

lemma revealed_text_take:
  assumes "0 \<le> t" and "0 < speed_cps"
  shows "revealed_text flat speed_cps t = take (nat \<lfloor>t * speed_cps\<rfloor>) flat"
proof -
  have "0 \<le> t * speed_cps" using assms by simp
  then show ?thesis by (simp add: revealed_text_def py_slice_to_def py_int_def)
qed

text \<open>
  C3. The reveal slices the text itself, so a line break counts as a typed character,
  while the duration does not count it. For the text \<open>"a\nbc"\<close> at one character per
  second (duration 3) the frame at \<open>t = 2\<close> reveals \<open>"a\n"\<close>: one printable character,
  where \<open>floor(t * speed)\<close> is two. The frame drawn there is the revealed text, the
  glitch character and the cursor.
\<close>

theorem revealed_text_counts_line_breaks:
  "revealed_text (str ''a\<newline>bc'') 1 2 = str ''a\<newline>''
   \<and> total_chars (revealed_text (str ''a\<newline>bc'') 1 2) = 1
   \<and> min (nat \<lfloor>2 * 1 :: real\<rfloor>) (total_chars (str ''a\<newline>bc'')) = 2
   \<and> (case create_typing_animation_clip video_config box_raster (str ''a\<newline>bc'') 0 0 70 1 2 of
        Inr (Some r) \<Rightarrow>
          clip_duration r = 3
          \<and> clip_frame r initial_glitch_state 0 2
              = Inr (str ''a\<newline>A'' @ [9608],
                     \<lparr> last_glitch_time = 2, last_glitch_string = str ''A'' \<rparr>)
      | _ \<Rightarrow> False)"
  by (simp add: frame_defs video_config_def str_def)

lemma glitch_stage_inv:
  assumes "glitch_stage cfg dur st rnd t cur = Inr (shown, st')" and "glitch_inv cfg st"
  shows "glitch_inv cfg st'"
  using assms
  by (auto simp: glitch_stage_def glitch_inv_def py_div_def random_choice_def
      split: if_splits sum.splits)

lemma make_frame_state:
  assumes "make_frame cfg flat speed_cps dur cod st rnd t = Inr (shown, st')"
  shows "\<exists>r. glitch_stage cfg dur st rnd t (revealed_text flat speed_cps t) = Inr (r, st')"
  using assms
  by (auto simp: make_frame_def Let_def split: sum.splits bool.splits prod.splits)

lemma sampled_inv:
  "sampled cfg flat speed_cps dur cod st \<Longrightarrow> glitch_inv cfg st"
proof (induction rule: sampled.induct)
  case sampled_init
  show ?case by (simp add: glitch_inv_def)
next
  case (sampled_frame st t rnd shown st')
  from make_frame_state [OF sampled_frame.hyps(3)] obtain r where
    "glitch_stage cfg dur st rnd t (revealed_text flat speed_cps t) = Inr (r, st')" ..
  then show ?case using sampled_frame.IH by (rule glitch_stage_inv)
qed

lemma glitch_stage_inv_result:
  assumes en: "TEXT_GLITCH_ENABLED cfg" and fps: "0 < FPS cfg"
    and hz: "1 \<le> TEXT_GLITCH_SPEED_HZ cfg" and cs: "TEXT_GLITCH_CHAR_SET cfg \<noteq> []"
    and inv: "glitch_inv cfg st" and t: "0 \<le> t"
  shows "\<exists>render_text st'.
           glitch_stage cfg dur st rnd t cur = Inr (render_text, st')
         \<and> (if t < dur - 1 / FPS cfg
            then (\<exists>g \<in> set (TEXT_GLITCH_CHAR_SET cfg).
                    render_text = cur @ [g] \<and> last_glitch_string st' = [g])
               \<and> (if 1 / TEXT_GLITCH_SPEED_HZ cfg \<le> t - last_glitch_time st
                  then random_choice rnd (TEXT_GLITCH_CHAR_SET cfg) = Inr (last_glitch_string st')
                     \<and> last_glitch_time st' = t
                  else st' = st)
            else render_text = cur \<and> st' = st)"
proof (cases "t < dur - 1 / FPS cfg")
  case False
  then show ?thesis using en fps by (simp add: glitch_stage_def py_div_def)
next
  case active: True
  have period: "1 / TEXT_GLITCH_SPEED_HZ cfg \<le> 1" using hz by simp
  show ?thesis
  proof (cases "1 / TEXT_GLITCH_SPEED_HZ cfg \<le> t - last_glitch_time st")
    case True
    then show ?thesis using en fps hz cs active
      by (simp add: glitch_stage_def py_div_def random_choice_def)
  next
    case False
    have "st \<noteq> initial_glitch_state"
    proof
      assume "st = initial_glitch_state"
      then have "t - last_glitch_time st = t + 1" by (simp add: initial_glitch_state_def)
      with t period False show False by simp
    qed
    with inv obtain g where "g \<in> set (TEXT_GLITCH_CHAR_SET cfg)" "last_glitch_string st = [g]"
      by (auto simp: glitch_inv_def)
    then show ?thesis using en fps hz active False
      by (simp add: glitch_stage_def py_div_def)
  qed
qed

text \<open>
  The glitch step of a frame. With glitching enabled (a positive frame rate, a glitch
  rate of at least one per second and a non-empty alphabet, as configured), in every
  frame sampled at \<open>t \<ge> 0\<close>: when \<open>t < duration - 1/fps\<close>, the step appends exactly one
  character of the alphabet to the revealed text; that character is drawn anew, and the
  roll time set to \<open>t\<close>, only when at least \<open>1 / TEXT_GLITCH_SPEED_HZ\<close> has passed since
  the last roll, and otherwise the stored character is appended and the state is kept;
  from \<open>duration - 1/fps\<close> on, nothing is appended and the state is kept.
\<close>

lemma glitch_step_on_cadence:
  assumes "TEXT_GLITCH_ENABLED cfg" and "0 < FPS cfg"
    and "1 \<le> TEXT_GLITCH_SPEED_HZ cfg" and "TEXT_GLITCH_CHAR_SET cfg \<noteq> []"
    and "sampled cfg flat speed_cps dur cursor_on_dur st" and "0 \<le> t"
  shows "\<exists>render_text st'.
           glitch_stage cfg dur st rnd t (revealed_text flat speed_cps t)
             = Inr (render_text, st')
         \<and> (if t < dur - 1 / FPS cfg
            then (\<exists>g \<in> set (TEXT_GLITCH_CHAR_SET cfg).
                    render_text = revealed_text flat speed_cps t @ [g]
                    \<and> last_glitch_string st' = [g])
               \<and> (if 1 / TEXT_GLITCH_SPEED_HZ cfg \<le> t - last_glitch_time st
                  then random_choice rnd (TEXT_GLITCH_CHAR_SET cfg) = Inr (last_glitch_string st')
                     \<and> last_glitch_time st' = t
                  else st' = st)
            else render_text = revealed_text flat speed_cps t \<and> st' = st)"
  using assms(1-4) sampled_inv [OF assms(5)] assms(6) by (rule glitch_stage_inv_result)

text \<open>
  The cursor is on for the first half of every blink period, while the text is being
  typed; outside the two line-break cases it follows the text built so far.
\<close>

lemma show_cursor_half_period:
  assumes "CURSOR_BLINK_RATE_HZ cfg \<noteq> 0"
  shows "show_cursor cfg dur (1 / (CURSOR_BLINK_RATE_HZ cfg * 2)) t
           = Inr (t < dur
                  \<and> t - (1 / CURSOR_BLINK_RATE_HZ cfg)
                          * of_int \<lfloor>t / (1 / CURSOR_BLINK_RATE_HZ cfg)\<rfloor>
                      < (1 / CURSOR_BLINK_RATE_HZ cfg) / 2)"
  using assms by (simp add: show_cursor_def py_div_def py_mod_def)

lemma place_cursor_append:
  assumes "0 \<le> num_chars" and "\<not> endswith render_text newline"
    and "\<not> (nat num_chars < length flat \<and> flat ! nat num_chars = newline)"
  shows "place_cursor cfg flat num_chars render_text = Inr (render_text @ CURSOR_CHAR cfg)"
  using assms by (auto simp: place_cursor_def py_getitem_def)

lemma place_cursor_before_line_break:
  assumes "0 \<le> num_chars" and "nat num_chars < length flat"
    and "flat ! nat num_chars = newline" and "\<not> endswith render_text newline"
  shows "place_cursor cfg flat num_chars render_text
           = Inr (take (nat num_chars) flat @ CURSOR_CHAR cfg @ drop (nat num_chars) flat)"
  using assms
  by (auto simp: place_cursor_def py_getitem_def py_slice_to_def py_slice_from_def)

text \<open>
  The frame as drawn, while the glitch is active and no line break is next: the revealed
  text, one glitch character, and the cursor when it is on.
\<close>

lemma frame_shows_glitch:
  assumes cfg: "TEXT_GLITCH_ENABLED cfg" "0 < FPS cfg" "1 \<le> TEXT_GLITCH_SPEED_HZ cfg"
      "TEXT_GLITCH_CHAR_SET cfg \<noteq> []" "newline \<notin> set (TEXT_GLITCH_CHAR_SET cfg)"
      "CURSOR_BLINK_RATE_HZ cfg \<noteq> 0"
    and st: "sampled cfg flat speed_cps dur cursor_on_dur st"
    and t: "0 \<le> t" "t < dur - 1 / FPS cfg" and speed: "0 < speed_cps"
    and no_break: "\<not> (nat \<lfloor>t * speed_cps\<rfloor> < length flat
                       \<and> flat ! nat \<lfloor>t * speed_cps\<rfloor> = newline)"
  shows "\<exists>g \<in> set (TEXT_GLITCH_CHAR_SET cfg). \<exists>st'.
           make_frame cfg flat speed_cps dur cursor_on_dur st rnd t
             = Inr (revealed_text flat speed_cps t @ [g]
                      @ (if show_cursor cfg dur cursor_on_dur t = Inr True
                         then CURSOR_CHAR cfg else []), st')"
proof -
  from glitch_stage_inv_result [OF cfg(1-4) sampled_inv [OF st] t(1), of dur rnd
      "revealed_text flat speed_cps t"] t(2)
  obtain g st' where g: "g \<in> set (TEXT_GLITCH_CHAR_SET cfg)"
    and gs: "glitch_stage cfg dur st rnd t (revealed_text flat speed_cps t)
               = Inr (revealed_text flat speed_cps t @ [g], st')"
    by auto
  have nn: "0 \<le> t * speed_cps" using t(1) speed by simp
  then have num: "py_int (t * speed_cps) = \<lfloor>t * speed_cps\<rfloor>" "0 \<le> py_int (t * speed_cps)"
    by (simp_all add: py_int_def)
  have ends: "\<not> endswith (revealed_text flat speed_cps t @ [g]) newline"
    using g cfg(5) by (auto simp: endswith_def)
  have pc: "place_cursor cfg flat (py_int (t * speed_cps)) (revealed_text flat speed_cps t @ [g])
              = Inr (revealed_text flat speed_cps t @ [g] @ CURSOR_CHAR cfg)"
    using place_cursor_append [OF num(2) ends, of flat cfg] no_break num(1) by simp
  have "\<exists>b. show_cursor cfg dur cursor_on_dur t = Inr b"
    using cfg(6) by (auto simp: show_cursor_def py_div_def py_mod_def)
  then obtain b where b: "show_cursor cfg dur cursor_on_dur t = Inr b" ..
  show ?thesis
    using g gs pc b by (cases b) (auto simp: make_frame_def Let_def)
qed

lemma glitch_char_no_line_break:
  "TEXT_GLITCH_CHAR_SET video_config ! (rnd mod 36) \<noteq> newline"
proof -
  have "TEXT_GLITCH_CHAR_SET video_config ! (rnd mod 36) \<in> set (TEXT_GLITCH_CHAR_SET video_config)"
    by (rule nth_mem) (simp add: video_config_def str_def)
  then show ?thesis by (auto simp: video_config_def str_def)
qed

text \<open>
  C4. A frame drawn before \<open>duration - 1/fps\<close> does not always show a glitch character:
  when the cursor is on and the next character to type is a line break, the frame is
  rebuilt from the text (lines 196-197 of the source) and the character appended by the
  glitch step is lost. For \<open>"a\nbc"\<close> at one character per second, with glitching
  enabled, the frame at \<open>t = 1 < 3 - 1/30\<close> drawn from the initial state is \<open>"a"\<close>, the
  cursor and the rest of the text, whatever the random generator draws: no character of
  the glitch alphabet is in it, although the glitch step has rolled one, which the state
  holds with the roll time \<open>1\<close>.
\<close>

theorem glitch_dropped_before_line_break:
  "(case create_typing_animation_clip video_config box_raster (str ''a\<newline>bc'') 0 0 70 1 2 of
      Inr (Some r) \<Rightarrow>
        TEXT_GLITCH_ENABLED video_config
        \<and> clip_duration r = 3
        \<and> 1 < clip_duration r - 1 / FPS video_config
        \<and> revealed_text (str ''a\<newline>bc'') 1 1 = str ''a''
        \<and> (case clip_frame r initial_glitch_state rnd 1 of
              Inr (shown, st') \<Rightarrow>
                shown = str ''a'' @ CURSOR_CHAR video_config @ str ''\<newline>bc''
                \<and> set shown \<inter> set (TEXT_GLITCH_CHAR_SET video_config) = {}
                \<and> st' = \<lparr> last_glitch_time = 1,
                          last_glitch_string = [TEXT_GLITCH_CHAR_SET video_config ! (rnd mod 36)] \<rparr>
            | Inl e \<Rightarrow> False)
    | _ \<Rightarrow> False)"
  using glitch_char_no_line_break [of rnd]
  by (simp add: frame_defs video_config_def str_def)

text \<open>
  C5. When the cursor is on and the next character to type is a line break, the frame
  is rebuilt as the revealed text, the cursor, and then the whole rest of the text: for
  \<open>"a\nbc"\<close> at one character per second the frame at \<open>t = 1\<close> (revealed text \<open>"a"\<close>)
  draws \<open>"a"\<close>, the cursor at the end of the first line, and the untyped \<open>"bc"\<close> on the
  second line; the glitch character rolled for the frame is not drawn.
\<close>

theorem cursor_before_line_break_shows_rest:
  "(case create_typing_animation_clip video_config box_raster (str ''a\<newline>bc'') 0 0 70 1 2 of
      Inr (Some r) \<Rightarrow>
        clip_duration r = 3
        \<and> revealed_text (str ''a\<newline>bc'') 1 1 = str ''a''
        \<and> clip_frame r initial_glitch_state 0 1
            = Inr (str ''a'' @ CURSOR_CHAR video_config @ str ''\<newline>bc'',
                   \<lparr> last_glitch_time = 1, last_glitch_string = str ''A'' \<rparr>)
    | _ \<Rightarrow> False)"
  by (simp add: frame_defs video_config_def str_def)

section \<open>Properties of the wrapping\<close>

text \<open>Every pass of the wrapping loop consumes a chunk or a part of one.\<close>

lemma fill_line_split: "fill_line width n chunks = (taken, rest) \<Longrightarrow> chunks = taken @ rest"
  by (induction chunks arbitrary: n taken rest) (auto split: if_splits prod.splits)

lemma fill_line_nonempty:
  "fill_line width 0 (c # cs) = ([], rest) \<Longrightarrow> width < length c"
  by (auto split: if_splits prod.splits)

lemma chunks_size_Cons [simp]: "chunks_size (c # cs) = Suc (length c + chunks_size cs)"
  by (simp add: chunks_size_def)

lemma chunks_size_Nil [simp]: "chunks_size [] = 0"
  by (simp add: chunks_size_def)

lemma chunks_size_append [simp]: "chunks_size (a @ b) = chunks_size a + chunks_size b"
  by (simp add: chunks_size_def)

lemma chunks_size_tl: "chunks_size (tl cs) \<le> chunks_size cs"
  by (cases cs) simp_all

lemma handle_long_word_end:
  assumes "handle_long_word width [] 0 chunk = (l, remainder)" and "width < length chunk"
  shows "length remainder < length chunk"
  using assms
  by (auto simp: handle_long_word_def Let_def split: if_splits option.splits)

lemma handle_long_word_le:
  assumes "handle_long_word width cur_line n chunk = (l, remainder)"
  shows "length remainder \<le> length chunk"
  using assms
  by (auto simp: handle_long_word_def Let_def split: if_splits option.splits)

lemma wrap_line_decreases:
  assumes ne: "chunks \<noteq> []"
  shows "chunks_size (snd (wrap_line width started chunks)) < chunks_size chunks"
proof -
  define chunks1 where "chunks1 = (if blank (hd chunks) \<and> started then tl chunks else chunks)"
  obtain cur_line rest where fl: "fill_line width 0 chunks1 = (cur_line, rest)"
    by (cases "fill_line width 0 chunks1")
  have split: "chunks1 = cur_line @ rest" using fl by (rule fill_line_split)
  have le: "chunks_size chunks1 \<le> chunks_size chunks"
    by (simp add: chunks1_def chunks_size_tl)
  show ?thesis
  proof (cases "rest \<noteq> [] \<and> length (hd rest) > width")
    case True
    then obtain r rs where rest: "rest = r # rs" and long: "width < length r"
      by (cases rest) auto
    obtain l remainder where
      h: "handle_long_word width cur_line (length (concat cur_line)) r = (l, remainder)"
      by (cases "handle_long_word width cur_line (length (concat cur_line)) r")
    have snd: "snd (wrap_line width started chunks) = remainder # rs"
      using fl True rest h by (simp add: wrap_line_def Let_def chunks1_def)
    have "chunks_size (remainder # rs) < chunks_size chunks1"
    proof (cases "cur_line = []")
      case True
      with h long have "length remainder < length r"
        using handle_long_word_end [of width r l remainder] by simp
      then show ?thesis using split rest True by simp
    next
      case False
      then have "0 < chunks_size cur_line" by (cases cur_line) simp_all
      moreover have "length remainder \<le> length r" using h by (rule handle_long_word_le)
      ultimately show ?thesis using split rest by simp
    qed
    with le snd show ?thesis by simp
  next
    case False
    then have snd: "snd (wrap_line width started chunks) = rest"
      using fl by (auto simp: wrap_line_def Let_def chunks1_def)
    have "chunks_size rest < chunks_size chunks"
    proof (cases "cur_line = []")
      case True
      then have no_chunk: "cur_line = []" by simp
      then have rest: "rest = chunks1" using split by simp
      show ?thesis
      proof (cases "chunks1 = chunks")
        case True
        then obtain c cs where c: "chunks1 = c # cs" using ne by (cases chunks1) auto
        from fl no_chunk c have "fill_line width 0 (c # cs) = ([], rest)" by simp
        then have "width < length c" by (rule fill_line_nonempty)
        with False rest c show ?thesis by simp
      next
        case False
        then have "chunks1 = tl chunks" by (simp add: chunks1_def split: if_splits)
        then show ?thesis using ne rest by (cases chunks) simp_all
      qed
    next
      case False
      then have "0 < chunks_size cur_line" by (cases cur_line) simp_all
      then show ?thesis using split le by simp
    qed
    with snd show ?thesis by simp
  qed
qed

termination wrap_chunks
  apply (relation "measure (\<lambda>(width, lines, chunks). chunks_size chunks)")
   apply simp
  subgoal premises prems for width lines chunks
    using prems wrap_line_decreases [of chunks width "lines \<noteq> []"]
    by (simp add: snd_def split: prod.splits)
  done

lemma fill_line_length:
  "fill_line width n chunks = (taken, rest) \<Longrightarrow> n \<le> width \<Longrightarrow> n + length (concat taken) \<le> width"
proof (induction chunks arbitrary: n taken rest)
  case Nil
  then show ?case by simp
next
  case (Cons c chunks)
  show ?case
  proof (cases "n + length c \<le> width")
    case True
    obtain t r where f: "fill_line width (n + length c) chunks = (t, r)"
      by (cases "fill_line width (n + length c) chunks")
    from Cons.IH [OF f True] Cons.prems(1) True f show ?thesis by auto
  next
    case False
    then show ?thesis using Cons.prems by auto
  qed
qed

lemma rfind_hyphen_less:
  assumes "rfind_hyphen chunk stop = Some i"
  shows "i < stop"
proof -
  define found where "found = filter (\<lambda>i. chunk ! i = 45) (rev [0..<min stop (length chunk)])"
  from assms have "found \<noteq> []" and "i = hd found"
    by (auto simp: rfind_hyphen_def found_def [symmetric] split: list.splits)
  then have "i \<in> set found" by simp
  then show ?thesis by (simp add: found_def)
qed

lemma handle_long_word_length:
  assumes "handle_long_word width cur_line (length (concat cur_line)) chunk = (l, remainder)"
    and "1 \<le> width" and "length (concat cur_line) \<le> width"
  shows "length (concat l) \<le> width"
  using assms
  by (auto simp: handle_long_word_def Let_def split: if_splits option.splits
      dest!: rfind_hyphen_less)

lemma concat_butlast_length: "length (concat (butlast xs)) \<le> length (concat xs)"
  by (induction xs) auto

lemma wrap_line_length:
  assumes "1 \<le> width"
  shows "length (concat (fst (wrap_line width started chunks))) \<le> width"
proof -
  define chunks1 where "chunks1 = (if blank (hd chunks) \<and> started then tl chunks else chunks)"
  obtain cur_line rest where fl: "fill_line width 0 chunks1 = (cur_line, rest)"
    by (cases "fill_line width 0 chunks1")
  have cl: "length (concat cur_line) \<le> width" using fill_line_length [OF fl] by simp
  obtain l remainder where
    h: "handle_long_word width cur_line (length (concat cur_line)) (hd rest) = (l, remainder)"
    by (cases "handle_long_word width cur_line (length (concat cur_line)) (hd rest)")
  have ll: "length (concat l) \<le> width" using h assms cl by (rule handle_long_word_length)
  have "fst (wrap_line width started chunks) \<in> {cur_line, butlast cur_line, l, butlast l}"
    using fl h by (simp add: wrap_line_def Let_def chunks1_def)
  then show ?thesis
    using cl ll concat_butlast_length [of cur_line] concat_butlast_length [of l] by auto
qed

lemma wrap_chunks_length:
  assumes "1 \<le> width" and "\<forall>l \<in> set lines. length l \<le> width"
  shows "\<forall>l \<in> set (wrap_chunks width lines chunks). length l \<le> width"
  using assms
proof (induction width lines chunks rule: wrap_chunks.induct)
  case (1 width lines chunks)
  show ?case
  proof (cases "chunks = []")
    case True
    then show ?thesis using "1.prems" by simp
  next
    case False
    obtain cur_line rest where wl: "wrap_line width (lines \<noteq> []) chunks = (cur_line, rest)"
      by (cases "wrap_line width (lines \<noteq> []) chunks")
    have "length (concat cur_line) \<le> width"
      using wrap_line_length [OF "1.prems"(1), of "lines \<noteq> []" chunks] wl by simp
    then have "\<forall>l \<in> set (if cur_line \<noteq> [] then lines @ [concat cur_line] else lines).
                 length l \<le> width"
      using "1.prems"(2) by simp
    from "1.IH" [OF False wl [symmetric] "1.prems"(1) this] wl False
    show ?thesis by (simp del: wrap_chunks.simps add: wrap_chunks.simps [of width lines chunks])
  qed
qed

lemma text_lines_nonempty [simp]: "text_lines s \<noteq> []"
  by (cases s) simp_all

lemma text_lines_append: "text_lines (a @ newline # b) = text_lines a @ text_lines b"
  by (induction a) simp_all

lemma text_lines_shorter: "x \<in> set (text_lines s) \<Longrightarrow> length x \<le> length s"
proof (induction s arbitrary: x)
  case Nil
  then show ?case by simp
next
  case (Cons c s)
  have hd: "length (hd (text_lines s)) \<le> length s"
    using Cons.IH [of "hd (text_lines s)"] by simp
  have tl: "y \<in> set (tl (text_lines s)) \<Longrightarrow> length y \<le> length s" for y
    using Cons.IH [of y] by (meson list.set_sel(2) text_lines_nonempty)
  show ?case
  proof (cases "c = newline")
    case True
    then show ?thesis using Cons.prems Cons.IH [of x] by auto
  next
    case False
    then show ?thesis using Cons.prems hd tl [of x] by auto
  qed
qed

lemma text_lines_join:
  assumes "\<forall>l \<in> set ls. length l \<le> n" and "x \<in> set (text_lines (join_lines ls))"
  shows "length x \<le> n"
  using assms
proof (induction ls rule: join_lines.induct)
  case 1
  then show ?case by simp
next
  case (2 l)
  then show ?case using text_lines_shorter [of x l] by simp
next
  case (3 l v va)
  from "3.prems"(2) have "x \<in> set (text_lines l) \<or> x \<in> set (text_lines (join_lines (v # va)))"
    by (simp add: text_lines_append)
  then show ?case
  proof
    assume "x \<in> set (text_lines l)"
    then show ?thesis using text_lines_shorter [of x l] "3.prems"(1) by simp
  next
    assume "x \<in> set (text_lines (join_lines (v # va)))"
    then show ?thesis using "3.IH" "3.prems"(1) by simp
  qed
qed

lemma width_chars_ge_1: "1 \<le> width_chars e font_size max_width"
  by (simp add: width_chars_def Let_def)

lemma width_chars_fits:
  assumes "1 \<le> text_length e font_size (str ''a'')"
    and "text_length e font_size (str ''a'') \<le> real_of_int max_width"
  shows "real_of_int (width_chars e font_size max_width) * text_length e font_size (str ''a'')
           \<le> real_of_int max_width"
proof -
  define a where "a = text_length e font_size (str ''a'')"
  have a: "1 \<le> a" "a \<le> real_of_int max_width" using assms by (simp_all add: a_def)
  then have q: "1 \<le> real_of_int max_width / a" by simp
  then have "1 \<le> \<lfloor>real_of_int max_width / a\<rfloor>" by simp
  then have "width_chars e font_size max_width = \<lfloor>real_of_int max_width / a\<rfloor>"
    using a q by (simp add: width_chars_def Let_def a_def [symmetric] py_int_def max_def)
  moreover have "real_of_int \<lfloor>real_of_int max_width / a\<rfloor> * a \<le> real_of_int max_width"
    using a by (simp add: pos_le_divide_eq [symmetric])
  ultimately show ?thesis by (simp add: a_def)
qed

lemma non_space_append [simp]: "non_space (a @ b) = non_space a @ non_space b"
  by (simp add: non_space_def)

lemma non_space_Nil [simp]: "non_space [] = []"
  by (simp add: non_space_def)

lemma non_space_blank: "blank c \<Longrightarrow> non_space c = []"
  by (simp add: blank_def non_space_def)

lemma non_space_concat_blank_last:
  assumes "cs \<noteq> []" and "blank (last cs)"
  shows "non_space (concat (butlast cs)) = non_space (concat cs)"
proof -
  have "concat cs = concat (butlast cs) @ last cs"
    using assms(1) by (metis append_butlast_last_id concat.simps concat_append append_Nil2)
  then show ?thesis using non_space_blank [OF assms(2)] by simp
qed

lemma non_space_expandtabs: "non_space (expandtabs tabsize column s) = non_space s"
  by (induction s arbitrary: column) (auto simp: non_space_def py_isspace_def)

lemma handle_long_word_concat:
  assumes "handle_long_word width cur_line n chunk = (l, remainder)"
  shows "concat l @ remainder = concat cur_line @ chunk"
  using assms by (auto simp: handle_long_word_def Let_def)

lemma wrap_line_content:
  assumes "chunks \<noteq> []"
  shows "non_space (concat (fst (wrap_line width started chunks)))
           @ non_space (concat (snd (wrap_line width started chunks)))
         = non_space (concat chunks)"
proof -
  define chunks1 where "chunks1 = (if blank (hd chunks) \<and> started then tl chunks else chunks)"
  have c1: "non_space (concat chunks1) = non_space (concat chunks)"
  proof (cases "blank (hd chunks) \<and> started")
    case True
    obtain c cs where "chunks = c # cs" using assms by (cases chunks) auto
    then show ?thesis using True non_space_blank [of c] by (simp add: chunks1_def)
  next
    case False
    then have "chunks1 = chunks" by (auto simp: chunks1_def)
    then show ?thesis by simp
  qed
  obtain cur_line rest where fl: "fill_line width 0 chunks1 = (cur_line, rest)"
    by (cases "fill_line width 0 chunks1")
  have split: "chunks1 = cur_line @ rest" using fl by (rule fill_line_split)
  define p where "p = (if rest \<noteq> [] \<and> length (hd rest) > width
              then (case handle_long_word width cur_line (length (concat cur_line)) (hd rest) of
                      (l, remainder) \<Rightarrow> (l, remainder # tl rest))
              else (cur_line, rest))"
  have p: "concat (fst p) @ concat (snd p) = concat chunks1"
  proof (cases "rest \<noteq> [] \<and> length (hd rest) > width")
    case True
    then obtain r rs where rest: "rest = r # rs" by (cases rest) auto
    obtain l remainder where
      h: "handle_long_word width cur_line (length (concat cur_line)) r = (l, remainder)"
      by (cases "handle_long_word width cur_line (length (concat cur_line)) r")
    have "p = (l, remainder # rs)" using True rest h by (simp add: p_def)
    then show ?thesis using handle_long_word_concat [OF h] split rest by simp
  next
    case False
    then have "p = (cur_line, rest)" by (auto simp: p_def)
    then show ?thesis using split by simp
  qed
  have w: "wrap_line width started chunks
             = (if fst p \<noteq> [] \<and> blank (last (fst p)) then butlast (fst p) else fst p, snd p)"
    using fl by (simp add: wrap_line_def Let_def chunks1_def p_def split: prod.splits)
  have "non_space (concat (fst (wrap_line width started chunks))) = non_space (concat (fst p))"
    using non_space_concat_blank_last [of "fst p"] by (simp add: w)
  moreover have "snd (wrap_line width started chunks) = snd p" by (simp add: w)
  ultimately have "non_space (concat (fst (wrap_line width started chunks)))
           @ non_space (concat (snd (wrap_line width started chunks)))
         = non_space (concat (fst p) @ concat (snd p))" by simp
  then show ?thesis using p c1 by simp
qed

lemma wrap_chunks_content:
  "non_space (concat (wrap_chunks width lines chunks))
     = non_space (concat lines) @ non_space (concat chunks)"
proof (induction width lines chunks rule: wrap_chunks.induct)
  case (1 width lines chunks)
  show ?case
  proof (cases "chunks = []")
    case True
    then show ?thesis by simp
  next
    case False
    obtain cur_line rest where wl: "wrap_line width (lines \<noteq> []) chunks = (cur_line, rest)"
      by (cases "wrap_line width (lines \<noteq> []) chunks")
    have content: "non_space (concat cur_line) @ non_space (concat rest) = non_space (concat chunks)"
      using wrap_line_content [OF False, of width "lines \<noteq> []"] wl by simp
    have "non_space (concat (wrap_chunks width lines chunks))
            = non_space (concat (if cur_line \<noteq> [] then lines @ [concat cur_line] else lines))
                @ non_space (concat rest)"
      using "1.IH" [OF False wl [symmetric]] wl False
      by (simp del: wrap_chunks.simps add: wrap_chunks.simps [of width lines chunks])
    also have "\<dots> = non_space (concat lines) @ non_space (concat cur_line) @ non_space (concat rest)"
      by simp
    finally show ?thesis using content by simp
  qed
qed

lemma non_space_join_lines: "non_space (join_lines ls) = non_space (concat ls)"
  by (induction ls rule: join_lines.induct) (simp_all add: non_space_def py_isspace_def)

lemma concat_filter_nonempty: "concat (filter (\<lambda>c. c \<noteq> []) xs) = concat xs"
  by (induction xs) auto

lemma concat_whitespace_split: "concat (whitespace_split s) = s"
  by (induction s) (auto split: list.splits)

text \<open>
  C6 (as amended). \<open>_wrap_to_width\<close> returns a text, and either the whole text measures
  at most \<open>max_width\<close> and is returned as it is, or every line of the wrapped text has at
  most \<open>width_chars\<close> characters, where \<open>width_chars = max(1, int(max_width /
  max(avg_char, 1)))\<close> and \<open>avg_char\<close> is the measured width of \<open>"a"\<close>: a token longer
  than that is split across lines (\<open>break_long_words=True\<close>). Nothing is truncated: when
  the chunks of the splitter concatenate to the text they split (as those of \<open>re.split\<close>
  with the capturing pattern \<open>wordsep_re\<close> do), the wrapped text has the characters of
  the text that are not whitespace, all of them and in their order. In a font where a
  string of \<open>n\<close> characters measures at most \<open>n\<close> times the width of \<open>"a"\<close>, that width
  being at least one pixel and at most \<open>max_width\<close>, every line of a wrapped text
  measures at most \<open>max_width\<close> pixels.
\<close>

theorem wrap_to_width_lines_fit:
  "\<exists>wrapped. wrap_to_width e txt font_size max_width = Inr wrapped
     \<and> ((\<forall>s. concat (wordsep_split e s) = s) \<longrightarrow> non_space wrapped = non_space txt)
     \<and> ((wrapped = txt \<and> text_length e font_size txt \<le> real_of_int max_width)
        \<or> ((\<forall>l \<in> set (text_lines wrapped).
                int (length l) \<le> width_chars e font_size max_width)
           \<and> (1 \<le> text_length e font_size (str ''a'')
                \<and> text_length e font_size (str ''a'') \<le> real_of_int max_width
                \<and> (\<forall>s. text_length e font_size s
                         \<le> real (length s) * text_length e font_size (str ''a''))
              \<longrightarrow> (\<forall>l \<in> set (text_lines wrapped).
                     text_length e font_size l \<le> real_of_int max_width))))"
proof (cases "text_length e font_size txt \<le> real_of_int max_width")
  case True
  then show ?thesis by (simp add: wrap_to_width_def)
next
  case False
  define w where "w = width_chars e font_size max_width"
  define chunks where "chunks = filter (\<lambda>c. c \<noteq> []) (wordsep_split e (expandtabs 8 0 txt))"
  define wrapped where "wrapped = join_lines (wrap_chunks (nat w) [] chunks)"
  have w1: "1 \<le> w" by (simp add: w_def width_chars_ge_1)
  then have res: "wrap_to_width e txt font_size max_width = Inr wrapped"
    using False
    by (simp add: wrap_to_width_def textwrap_wrap_def Let_def w_def chunks_def wrapped_def)
  have content: "non_space wrapped = non_space txt"
    if split: "\<forall>s. concat (wordsep_split e s) = s"
  proof -
    have "concat chunks = expandtabs 8 0 txt"
      using split by (simp add: chunks_def concat_filter_nonempty)
    then show ?thesis
      by (simp del: wrap_chunks.simps
          add: wrapped_def non_space_join_lines wrap_chunks_content non_space_expandtabs)
  qed
  have lines: "\<forall>l \<in> set (wrap_chunks (nat w) [] chunks). length l \<le> nat w"
    using w1 by (intro wrap_chunks_length) simp_all
  have len: "int (length l) \<le> w" if "l \<in> set (text_lines wrapped)" for l
  proof -
    have "length l \<le> nat w" using lines that unfolding wrapped_def by (rule text_lines_join)
    then show ?thesis using w1 by simp
  qed
  have px: "text_length e font_size l \<le> real_of_int max_width"
    if a1: "1 \<le> text_length e font_size (str ''a'')"
      and a2: "text_length e font_size (str ''a'') \<le> real_of_int max_width"
      and font: "\<forall>s. text_length e font_size s
                   \<le> real (length s) * text_length e font_size (str ''a'')"
      and l: "l \<in> set (text_lines wrapped)" for l
  proof -
    have "text_length e font_size l \<le> real (length l) * text_length e font_size (str ''a'')"
      using font by simp
    also have "\<dots> \<le> real_of_int w * text_length e font_size (str ''a'')"
    proof -
      have "real (length l) \<le> real_of_int w" using len [OF l] by linarith
      then show ?thesis using a1 by (simp add: mult_right_mono)
    qed
    also have "\<dots> \<le> real_of_int max_width"
      unfolding w_def using a1 a2 by (rule width_chars_fits)
    finally show ?thesis .
  qed
  from res content len px show ?thesis unfolding w_def by blast
qed

theorem wrap_to_width_lines_fit_witness:
  "(\<forall>s. concat (wordsep_split fixed_pitch s) = s)
   \<and> 1 \<le> text_length fixed_pitch 70 (str ''a'')
   \<and> text_length fixed_pitch 70 (str ''a'') \<le> real_of_int 300
   \<and> (\<forall>s. text_length fixed_pitch 70 s
            \<le> real (length s) * text_length fixed_pitch 70 (str ''a''))
   \<and> (\<exists>wrapped. wrap_to_width fixed_pitch (str ''the quick fox'') 70 300 = Inr wrapped
         \<and> wrapped = str ''the\<newline>quick\<newline>fox''
         \<and> non_space wrapped = non_space (str ''the quick fox'')
         \<and> width_chars fixed_pitch 70 300 = 7
         \<and> (\<forall>l \<in> set (text_lines wrapped).
               int (length l) \<le> width_chars fixed_pitch 70 300
               \<and> text_length fixed_pitch 70 l \<le> real_of_int 300))"
proof -
  have split: "\<forall>s. concat (wordsep_split fixed_pitch s) = s"
    by (simp add: fixed_pitch_def concat_whitespace_split)
  have a1: "1 \<le> text_length fixed_pitch 70 (str ''a'')"
    by (simp add: fixed_pitch_def str_def)
  have a2: "text_length fixed_pitch 70 (str ''a'') \<le> real_of_int 300"
    by (simp add: fixed_pitch_def str_def)
  have font: "\<forall>s. text_length fixed_pitch 70 s
                \<le> real (length s) * text_length fixed_pitch 70 (str ''a'')"
    by (simp add: fixed_pitch_def str_def)
  have wc: "width_chars fixed_pitch 70 300 = 7"
    by (simp add: width_chars_def fixed_pitch_def str_def py_int_def)
  have eval: "wrap_to_width fixed_pitch (str ''the quick fox'') 70 300
                = Inr (str ''the\<newline>quick\<newline>fox'')"
    by (simp add: wrap_to_width_def fixed_pitch_def width_chars_def textwrap_wrap_def str_def
        py_int_def wrap_line_def handle_long_word_def rfind_hyphen_def blank_def py_isspace_def
        ascii_space_def Let_def)
  have wide: "\<not> text_length fixed_pitch 70 (str ''the quick fox'') \<le> real_of_int 300"
    by (simp add: fixed_pitch_def str_def)
  from wrap_to_width_lines_fit [of fixed_pitch "str ''the quick fox''" 70 300]
    eval wide split a1 a2 font
  have "non_space (str ''the\<newline>quick\<newline>fox'') = non_space (str ''the quick fox'')
        \<and> (\<forall>l \<in> set (text_lines (str ''the\<newline>quick\<newline>fox'')).
               int (length l) \<le> width_chars fixed_pitch 70 300
               \<and> text_length fixed_pitch 70 l \<le> real_of_int 300)"
    by auto
  with split a1 a2 font eval wc show ?thesis by simp
qed

text \<open>
  C6 as stated fails where it says that a token wider than the maximum is left unbroken:
  with glyphs 42 pixels wide and a maximum of 100 pixels, the token \<open>"aaaa"\<close> (168
  pixels) comes back split over two lines.
\<close>

theorem wrap_to_width_splits_long_token:
  "text_length fixed_pitch 70 (str ''aaaa'') = 168
   \<and> wrap_to_width fixed_pitch (str ''aaaa'') 70 100 = Inr (str ''aa\<newline>aa'')"
  by (simp add: wrap_to_width_def fixed_pitch_def width_chars_def textwrap_wrap_def str_def
      py_int_def wrap_line_def handle_long_word_def rfind_hyphen_def blank_def py_isspace_def
      Let_def)

section \<open>Properties of the scenes\<close>

lemma create_Some:
  assumes "create_typing_animation_clip cfg img txt y st fs sp sw = Inr (Some r)"
  shows "clip_start r = st" and "0 \<le> clip_duration r" and "clip_pos_y r = y"
    and "final_text r = txt" and "st \<le> clip_end r"
  using assms
  by (auto simp: create_typing_animation_clip_def py_div_def Let_def clip_end_def max_def
      split: if_splits)

lemma layer_end_typing [simp]: "layer_end (typing_layer r res) = clip_end res"
  by (simp add: layer_end_def typing_layer_def clip_end_def)

lemma role_typing [simp]: "role (typing_layer r res) = r"
  by (simp add: typing_layer_def)

lemma role_pil [simp]: "role (pil_to_clip r p s d y) = r"
  by (simp add: pil_to_clip_def)

lemma start_pil [simp]: "start (pil_to_clip r p s d y) = s"
  by (simp add: pil_to_clip_def)

lemma duration_pil [simp]: "duration (pil_to_clip r p s d y) = d"
  by (simp add: pil_to_clip_def)

lemma layer_end_pil [simp]: "layer_end (pil_to_clip r p s d y) = s + d"
  by (simp add: pil_to_clip_def layer_end_def)

lemma lines_inv_step:
  assumes inv: "lines_inv k s"
    and res: "create_typing_animation_clip cfg img line (y_pos s) (current_time s) fs sp sw
                = Inr (Some res)"
  shows "lines_inv k
           \<lparr> clips = clips s @ [typing_layer (LineTyping i) res],
             holds = holds s @ [\<lparr> h_index = i, h_img = final_text res, h_size = canvas_size res,
                                  h_anchor = anchor res, h_pos_y = y_pos s, h_start = clip_end res,
                                  is_anomaly = (int i = k) \<rparr>],
             ends = ends s @ [clip_end res],
             y_pos = y_pos s + snd (canvas_size res) + gap,
             current_time = clip_end res \<rparr>"
proof -
  have le: "current_time s \<le> clip_end res" using res by (rule create_Some(5))
  show ?thesis
    using inv le unfolding lines_inv_def
    by (auto simp: is_typing_def intro: order_trans)
qed

lemma type_lines_inv:
  assumes "type_lines cfg img k ils s = Inr s'" and "lines_inv k s"
  shows "lines_inv k s'"
  using assms
proof (induction ils arbitrary: s)
  case Nil
  then show ?case by simp
next
  case (Cons il ils)
  obtain i line where il: "il = (i, line)" by (cases il)
  show ?case
  proof (cases "create_typing_animation_clip cfg img line (y_pos s) (current_time s)
             (PUZZLE_LINE_FONT_SIZE cfg) (PUZZLE_TYPING_SPEED_CPS cfg) (PUZZLE_STROKE_WIDTH cfg)")
    case (Inl e)
    then show ?thesis using Cons.prems il by simp
  next
    case (Inr ro)
    show ?thesis
    proof (cases ro)
      case None
      then show ?thesis using Cons Inr il by simp
    next
      case (Some res)
      have step: "lines_inv k
           \<lparr> clips = clips s @ [typing_layer (LineTyping i) res],
             holds = holds s @ [\<lparr> h_index = i, h_img = final_text res, h_size = canvas_size res,
                                  h_anchor = anchor res, h_pos_y = y_pos s, h_start = clip_end res,
                                  is_anomaly = (int i = k) \<rparr>],
             ends = ends s @ [clip_end res],
             y_pos = y_pos s + snd (canvas_size res) + MIN_VERTICAL_GAP_BETWEEN_PUZZLE_LINES cfg,
             current_time = clip_end res \<rparr>"
        using Cons.prems(2) Inr [unfolded Some] by (rule lines_inv_step)
      show ?thesis
        using Cons.prems(1) Inr Some il Cons.IH [OF _ step] by simp
    qed
  qed
qed

lemma type_lines_prefix:
  assumes "type_lines cfg img k ils s = Inr s'"
  shows "\<exists>ext. clips s' = clips s @ ext"
  using assms
proof (induction ils arbitrary: s)
  case Nil
  then show ?case by simp
next
  case (Cons il ils)
  obtain i line where il: "il = (i, line)" by (cases il)
  from Cons.prems il show ?case
    by (auto split: sum.splits option.splits dest!: Cons.IH)
qed

lemma py_max_last:
  assumes "xs \<noteq> []" and "\<forall>x \<in> set xs. x \<le> m" and "last xs = m"
  shows "py_max xs = Inr m"
  using assms
proof (induction xs rule: py_max.induct)
  case 1
  then show ?case by simp
next
  case (2 x)
  then show ?case by simp
next
  case (3 x v va)
  then show ?case by (simp add: max_def)
qed

lemma hold_clips_sound:
  assumes "c \<in> set (hold_clips td rv hs)"
  shows "\<exists>h \<in> set hs. role c = LineHold (h_index h) \<and> start c = h_start h \<and> 0 < duration c
           \<and> layer_end c = (if is_anomaly h then td else rv)"
  using assms
  by (induction hs) (auto simp: Let_def max_def split: if_splits)

lemma hold_clips_complete:
  assumes "h \<in> set hs" and "h_start h < (if is_anomaly h then td else rv)"
  shows "\<exists>c \<in> set (hold_clips td rv hs). role c = LineHold (h_index h) \<and> start c = h_start h"
  using assms
  by (induction hs) (auto simp: Let_def max_def split: if_splits)

lemma range_down_eq: "range_down n = map (\<lambda>i. n - int i) [0..<nat n]"
proof (induction n rule: range_down.induct)
  case (1 n)
  show ?case
  proof (cases "0 < n")
    case True
    then have n: "nat n = Suc (nat (n - 1))" by simp
    have "range_down n = n # range_down (n - 1)" using True by simp
    also have "\<dots> = n # map (\<lambda>i. n - 1 - int i) [0..<nat (n - 1)]"
      using "1.IH" [OF True] by simp
    also have "\<dots> = map (\<lambda>i. n - int i) [0..<nat n]"
      unfolding n by (simp add: upt_conv_Cons map_Suc_upt [symmetric] del: upt_Suc)
    finally show ?thesis .
  next
    case False
    then show ?thesis by simp
  qed
qed

lemma countdown_clips_eq:
  "countdown_clips cfg cs =
     map (\<lambda>i. pil_to_clip CountdownDigit (Number (COUNTDOWN_SECONDS cfg - int i)) (cs + real i) 1
                 (H cfg - 500))
       [0..<nat (COUNTDOWN_SECONDS cfg)]"
  by (simp add: countdown_clips_def range_down_eq enumerate_eq_zip zip_map2 zip_same_conv_map o_def
      del: range_down.simps)

lemma type_lines_time:
  assumes "type_lines cfg img k ils s = Inr s'"
  shows "current_time s \<le> current_time s'"
  using assms
proof (induction ils arbitrary: s)
  case Nil
  then show ?case by simp
next
  case (Cons il ils)
  obtain i line where il: "il = (i, line)" by (cases il)
  from Cons.prems il show ?case
    by (auto split: sum.splits option.splits dest!: Cons.IH create_Some(5))
qed

lemma line_end_eq:
  assumes "lines_inv k s"
  shows "(if ends s \<noteq> [] then py_max (ends s) else Inr (current_time s)) = Inr (current_time s)"
proof (cases "ends s = []")
  case True
  then show ?thesis by simp
next
  case False
  from assms have "\<forall>x \<in> set (ends s). x \<le> current_time s"
    and "last (ends s) = current_time s"
    using False by (simp_all add: lines_inv_def)
  with False have "py_max (ends s) = Inr (current_time s)" by (rule py_max_last)
  with False show ?thesis by simp
qed

lemma countdown_clips_role: "c \<in> set (countdown_clips cfg cs) \<Longrightarrow> role c = CountdownDigit"
  by (auto simp: countdown_clips_eq)

lemma hold_clips_role: "c \<in> set (hold_clips td rv hs) \<Longrightarrow> \<exists>i. role c = LineHold i"
  by (drule hold_clips_sound) auto

lemma expl_clips_role:
  "c \<in> set (expl_clips cfg res) \<Longrightarrow> role c = ExplanationTyping \<or> role c = ExplanationHold"
  by (auto simp: expl_clips_def split: option.splits)

lemma puzzle_timeline_Inr:
  assumes "puzzle_timeline cfg img k wt wl we = Inr sc"
  obtains title_res s res where
    "create_typing_animation_clip cfg img wt 250 (1 / 5) (TITLE_FONT_SIZE cfg)
       (TITLE_TYPING_SPEED_CPS cfg) (TITLE_STROKE_WIDTH cfg) = Inr (Some title_res)"
    and "lines_inv k s" and "clip_end title_res \<le> current_time s"
    and "create_typing_animation_clip cfg img we 300
           (reveal_start_time sc + REVEAL_TO_EXPLANATION_DELAY_S cfg)
           (EXPLANATION_FONT_SIZE cfg) (EXPLANATION_TYPING_SPEED_CPS cfg)
           (PUZZLE_STROKE_WIDTH cfg) = Inr res"
    and "last_line_end sc = current_time s"
    and "countdown_start sc = last_line_end sc + PRE_COUNTDOWN_PAUSE_S cfg"
    and "reveal_start_time sc = countdown_start sc + real_of_int (COUNTDOWN_SECONDS cfg)"
    and "total_duration sc = (case res of None \<Rightarrow> reveal_start_time sc
                              | Some r \<Rightarrow> clip_end r + EXPLANATION_HOLD_DURATION_S cfg)"
    and "layers sc = clips s @ countdown_clips cfg (countdown_start sc) @ expl_clips cfg res
           @ [pil_to_clip TitleHold (Still (final_text title_res)) (clip_end title_res)
                (max 0 (reveal_start_time sc - clip_end title_res)) 250]
           @ hold_clips (total_duration sc) (reveal_start_time sc) (holds s)"
proof -
  from assms obtain title_res where
    t: "create_typing_animation_clip cfg img wt 250 (1 / 5) (TITLE_FONT_SIZE cfg)
       (TITLE_TYPING_SPEED_CPS cfg) (TITLE_STROKE_WIDTH cfg) = Inr (Some title_res)"
    by (auto simp: puzzle_timeline_def split: sum.splits option.splits)
  define s0 where "s0 = \<lparr> clips = [typing_layer TitleTyping title_res], holds = [], ends = [],
                    y_pos = LINE_START_Y cfg, current_time = clip_end title_res \<rparr>"
  from assms t obtain s where
    s: "type_lines cfg img k (enumerate 0 wl) s0 = Inr s"
    by (auto simp: puzzle_timeline_def s0_def split: sum.splits option.splits)
  have inv0: "lines_inv k s0" by (simp add: lines_inv_def s0_def is_typing_def)
  have inv: "lines_inv k s" using s inv0 by (rule type_lines_inv)
  have time: "clip_end title_res \<le> current_time s"
    using type_lines_time [OF s] by (simp add: s0_def)
  note le = line_end_eq [OF inv]
  from assms t s le obtain res where
    "create_typing_animation_clip cfg img we 300
           (current_time s + PRE_COUNTDOWN_PAUSE_S cfg + real_of_int (COUNTDOWN_SECONDS cfg)
              + REVEAL_TO_EXPLANATION_DELAY_S cfg)
           (EXPLANATION_FONT_SIZE cfg) (EXPLANATION_TYPING_SPEED_CPS cfg)
           (PUZZLE_STROKE_WIDTH cfg) = Inr res"
    and "sc = \<lparr> layers = clips s
                   @ countdown_clips cfg (current_time s + PRE_COUNTDOWN_PAUSE_S cfg)
                   @ expl_clips cfg res
                   @ [pil_to_clip TitleHold (Still (final_text title_res)) (clip_end title_res)
                        (max 0 (current_time s + PRE_COUNTDOWN_PAUSE_S cfg
                                  + real_of_int (COUNTDOWN_SECONDS cfg) - clip_end title_res)) 250]
                   @ hold_clips (case res of None \<Rightarrow> current_time s + PRE_COUNTDOWN_PAUSE_S cfg
                                                + real_of_int (COUNTDOWN_SECONDS cfg)
                                  | Some r \<Rightarrow> clip_end r + EXPLANATION_HOLD_DURATION_S cfg)
                       (current_time s + PRE_COUNTDOWN_PAUSE_S cfg
                          + real_of_int (COUNTDOWN_SECONDS cfg)) (holds s),
                 total_duration = (case res of None \<Rightarrow> current_time s + PRE_COUNTDOWN_PAUSE_S cfg
                                                + real_of_int (COUNTDOWN_SECONDS cfg)
                                  | Some r \<Rightarrow> clip_end r + EXPLANATION_HOLD_DURATION_S cfg),
                 last_line_end = current_time s,
                 countdown_start = current_time s + PRE_COUNTDOWN_PAUSE_S cfg,
                 reveal_start_time = current_time s + PRE_COUNTDOWN_PAUSE_S cfg
                                       + real_of_int (COUNTDOWN_SECONDS cfg) \<rparr>"
    by (auto simp: puzzle_timeline_def s0_def [symmetric] Let_def expl_clips_def
        split: sum.splits)
  with t inv time show ?thesis
    by (intro that [of title_res s res]) (simp_all split: option.splits)
qed

lemma build_puzzle_clip_Inr:
  assumes "build_puzzle_clip e cfg lines k expl title = Inr sc"
  obtains wt wl we where "puzzle_timeline cfg (img_size e) k wt wl we = Inr sc"
  using assms by (auto simp: build_puzzle_clip_def split: sum.splits)

lemma not_typing_roles:
  "role c = CountdownDigit \<or> role c = ExplanationTyping \<or> role c = ExplanationHold
     \<or> role c = TitleHold \<or> role c = LineHold i \<Longrightarrow> \<not> is_typing c"
  by (auto simp: is_typing_def)

lemma typing_role_cases: "is_typing c \<Longrightarrow> role c = TitleTyping \<or> (\<exists>i. role c = LineTyping i)"
  by (auto simp: is_typing_def split: role.splits)

lemmas scene_defs = build_puzzle_clip_def puzzle_timeline_def wrap_to_width_def
  create_typing_animation_clip_def countdown_clips_def py_div_def Let_def video_config_def
  fixed_pitch_def str_def total_chars_def enumerate_eq_zip clip_end_def typing_layer_def
  pil_to_clip_def layer_end_def upt_conv_Cons ascii_upper_def box_raster_def expl_clips_def

lemma demo_scene:
  "(case build_puzzle_clip fixed_pitch video_config
           [str ''2+2=4'', str ''3+3=7'', str ''5+5=10''] 1 (str ''seven is wrong'') (str ''FIND'') of
      Inr sc \<Rightarrow>
        map (\<lambda>c. (role c, start c, layer_end c)) (layers sc)
          = [(TitleTyping, 1 / 5, 23 / 15), (LineTyping 0, 23 / 15, 16 / 5),
             (LineTyping 1, 16 / 5, 73 / 15), (LineTyping 2, 73 / 15, 103 / 15),
             (CountdownDigit, 103 / 15, 118 / 15), (CountdownDigit, 118 / 15, 133 / 15),
             (CountdownDigit, 133 / 15, 148 / 15), (CountdownDigit, 148 / 15, 163 / 15),
             (CountdownDigit, 163 / 15, 178 / 15),
             (ExplanationTyping, 371 / 30, 77 / 6), (ExplanationHold, 77 / 6, 43 / 3),
             (TitleHold, 23 / 15, 178 / 15), (LineHold 0, 16 / 5, 178 / 15),
             (LineHold 1, 73 / 15, 43 / 3), (LineHold 2, 103 / 15, 178 / 15)]
        \<and> total_duration sc = 43 / 3 \<and> reveal_start_time sc = 178 / 15
        \<and> countdown_start sc = 103 / 15 \<and> last_line_end sc = 103 / 15
    | Inl err \<Rightarrow> False)"
  by (simp add: scene_defs)

text \<open>
  In exact arithmetic, in a puzzle scene built with anomaly index \<open>k\<close>: the reveal time
  is the countdown start plus the countdown length; every hold layer of a puzzle line has
  a positive duration and ends at the scene's total duration when it is the hold of line
  \<open>k\<close>, at the reveal time otherwise; a typed line has a hold layer (starting where its
  typing ends) exactly when its typing ends before that end time; and, the pause plus the
  countdown length not being negative, the title's hold exists and ends at the reveal
  time. The section on double precision has the same builder with the rounding of the
  source's floats, where the ends are met only up to rounding.
\<close>

lemma exact_line_holds_end:
  assumes "build_puzzle_clip e cfg lines k expl title = Inr sc"
  shows "reveal_start_time sc = countdown_start sc + real_of_int (COUNTDOWN_SECONDS cfg)
    \<and> (\<forall>c \<in> set (layers sc). \<forall>i. role c = LineHold i \<longrightarrow>
          0 < duration c
          \<and> layer_end c = (if int i = k then total_duration sc else reveal_start_time sc))
    \<and> (\<forall>a \<in> set (layers sc). \<forall>i. role a = LineTyping i \<longrightarrow>
          ((\<exists>c \<in> set (layers sc). role c = LineHold i \<and> start c = layer_end a)
             \<longleftrightarrow> layer_end a < (if int i = k then total_duration sc else reveal_start_time sc)))
    \<and> (0 \<le> PRE_COUNTDOWN_PAUSE_S cfg + real_of_int (COUNTDOWN_SECONDS cfg) \<longrightarrow>
          (\<exists>c \<in> set (layers sc). role c = TitleHold)
          \<and> (\<forall>c \<in> set (layers sc). role c = TitleHold \<longrightarrow> layer_end c = reveal_start_time sc))"
proof -
  from assms obtain wt wl we where "puzzle_timeline cfg (img_size e) k wt wl we = Inr sc"
    by (rule build_puzzle_clip_Inr)
  then obtain title_res s res where
    inv: "lines_inv k s" and time: "clip_end title_res \<le> current_time s"
    and lle: "last_line_end sc = current_time s"
    and cds: "countdown_start sc = last_line_end sc + PRE_COUNTDOWN_PAUSE_S cfg"
    and rv: "reveal_start_time sc = countdown_start sc + real_of_int (COUNTDOWN_SECONDS cfg)"
    and ls: "layers sc = clips s @ countdown_clips cfg (countdown_start sc) @ expl_clips cfg res
           @ [pil_to_clip TitleHold (Still (final_text title_res)) (clip_end title_res)
                (max 0 (reveal_start_time sc - clip_end title_res)) 250]
           @ hold_clips (total_duration sc) (reveal_start_time sc) (holds s)"
    by (rule puzzle_timeline_Inr)
  let ?E = "\<lambda>i. if int i = k then total_duration sc else reveal_start_time sc"
  have typed: "is_typing c" if "c \<in> set (clips s)" for c
    using inv that by (simp add: lines_inv_def)
  have anomaly: "is_anomaly h = (int (h_index h) = k)" if "h \<in> set (holds s)" for h
    using inv that by (simp add: lines_inv_def)
  have hold_of: "\<exists>h \<in> set (holds s). h_index h = i \<and> h_start h = layer_end c"
    if "c \<in> set (clips s)" "role c = LineTyping i" for c i
    using inv that by (simp add: lines_inv_def)
  have in_holds: "c \<in> set (hold_clips (total_duration sc) (reveal_start_time sc) (holds s))"
    if "c \<in> set (layers sc)" "role c = LineHold i" for c i
    using that typed [of c] countdown_clips_role [of c cfg "countdown_start sc"]
      expl_clips_role [of c cfg res]
    by (auto simp: ls is_typing_def)
  have in_clips: "c \<in> set (clips s)" if "c \<in> set (layers sc)" "role c = LineTyping i" for c i
    using that countdown_clips_role [of c cfg "countdown_start sc"] expl_clips_role [of c cfg res]
      hold_clips_role [of c "total_duration sc" "reveal_start_time sc" "holds s"]
    by (auto simp: ls)
  have held: "0 < duration c \<and> layer_end c = ?E i"
    if "c \<in> set (layers sc)" "role c = LineHold i" for c i
  proof -
    from hold_clips_sound [OF in_holds [OF that]] obtain h where
      "h \<in> set (holds s)" "role c = LineHold (h_index h)" "0 < duration c"
      "layer_end c = (if is_anomaly h then total_duration sc else reveal_start_time sc)"
      by blast
    then show ?thesis using that(2) anomaly [of h] by simp
  qed
  have omitted: "(\<exists>c \<in> set (layers sc). role c = LineHold i \<and> start c = layer_end a)
                   \<longleftrightarrow> layer_end a < ?E i"
    if "a \<in> set (layers sc)" "role a = LineTyping i" for a i
  proof
    assume "\<exists>c \<in> set (layers sc). role c = LineHold i \<and> start c = layer_end a"
    then obtain c where c: "c \<in> set (layers sc)" "role c = LineHold i" "start c = layer_end a"
      by blast
    from held [OF c(1,2)] c(3) show "layer_end a < ?E i" by (simp add: layer_end_def)
  next
    assume less: "layer_end a < ?E i"
    from hold_of [OF in_clips [OF that] that(2)] obtain h where
      h: "h \<in> set (holds s)" "h_index h = i" "h_start h = layer_end a" by blast
    then have "h_start h < (if is_anomaly h then total_duration sc else reveal_start_time sc)"
      using less anomaly [of h] by simp
    from hold_clips_complete [OF h(1) this] h
    show "\<exists>c \<in> set (layers sc). role c = LineHold i \<and> start c = layer_end a"
      by (auto simp: ls)
  qed
  have title: "(\<exists>c \<in> set (layers sc). role c = TitleHold)
          \<and> (\<forall>c \<in> set (layers sc). role c = TitleHold \<longrightarrow> layer_end c = reveal_start_time sc)"
    if nonneg: "0 \<le> PRE_COUNTDOWN_PAUSE_S cfg + real_of_int (COUNTDOWN_SECONDS cfg)"
  proof -
    have le: "clip_end title_res \<le> reveal_start_time sc"
      using time nonneg by (simp add: rv cds lle)
    have "layer_end c = reveal_start_time sc" if "c \<in> set (layers sc)" "role c = TitleHold" for c
      using that typed [of c] countdown_clips_role [of c cfg "countdown_start sc"]
        expl_clips_role [of c cfg res] le
        hold_clips_role [of c "total_duration sc" "reveal_start_time sc" "holds s"]
      by (auto simp: ls is_typing_def)
    then show ?thesis by (auto simp: ls)
  qed
  from rv held omitted title show ?thesis by blast
qed

text \<open>
  C7. The scene's countdown layers are, in order, one per value \<open>N, N-1, \<dots>, 1\<close> of the
  configured countdown length \<open>N\<close>: there are \<open>N\<close> of them (none when \<open>N \<le> 0\<close>), the
  \<open>i\<close>-th (from 0) shows \<open>N - i\<close>, starts at \<open>countdown_start + i\<close> and lasts one second;
  \<open>countdown_start\<close> is the end of the last typed line (of the title when no line is
  typed) plus the pre-countdown pause.
\<close>

theorem countdown_layers:
  assumes "build_puzzle_clip e cfg lines k expl title = Inr sc"
  shows "filter (\<lambda>c. role c = CountdownDigit) (layers sc)
           = map (\<lambda>i. \<lparr> role = CountdownDigit, picture = Number (COUNTDOWN_SECONDS cfg - int i),
                         start = countdown_start sc + real i, duration = 1,
                         pos_y = H cfg - 500 \<rparr>)
               [0..<nat (COUNTDOWN_SECONDS cfg)]
         \<and> countdown_start sc = last_line_end sc + PRE_COUNTDOWN_PAUSE_S cfg
         \<and> last_line_end sc = layer_end (last (filter is_typing (layers sc)))"
proof -
  from assms obtain wt wl we where "puzzle_timeline cfg (img_size e) k wt wl we = Inr sc"
    by (rule build_puzzle_clip_Inr)
  then obtain title_res s res where
    inv: "lines_inv k s"
    and lle: "last_line_end sc = current_time s"
    and cds: "countdown_start sc = last_line_end sc + PRE_COUNTDOWN_PAUSE_S cfg"
    and ls: "layers sc = clips s @ countdown_clips cfg (countdown_start sc) @ expl_clips cfg res
           @ [pil_to_clip TitleHold (Still (final_text title_res)) (clip_end title_res)
                (max 0 (reveal_start_time sc - clip_end title_res)) 250]
           @ hold_clips (total_duration sc) (reveal_start_time sc) (holds s)"
    by (rule puzzle_timeline_Inr)
  have typed: "\<forall>c \<in> set (clips s). is_typing c" using inv by (simp add: lines_inv_def)
  have f1: "filter (\<lambda>c. role c = CountdownDigit) (clips s) = []"
    using typed by (auto simp: filter_empty_conv is_typing_def)
  have f2: "filter (\<lambda>c. role c = CountdownDigit) (countdown_clips cfg (countdown_start sc))
              = countdown_clips cfg (countdown_start sc)"
    by (simp add: countdown_clips_role)
  have f3: "filter (\<lambda>c. role c = CountdownDigit) (expl_clips cfg res) = []"
    by (auto simp: filter_empty_conv dest: expl_clips_role)
  have f4: "filter (\<lambda>c. role c = CountdownDigit)
               (hold_clips (total_duration sc) (reveal_start_time sc) (holds s)) = []"
    by (auto simp: filter_empty_conv dest: hold_clips_role)
  have digits: "filter (\<lambda>c. role c = CountdownDigit) (layers sc)
                  = countdown_clips cfg (countdown_start sc)"
    by (simp add: ls f1 f2 f3 f4)
  have g1: "filter is_typing (clips s) = clips s" using typed by simp
  have g2: "filter is_typing (countdown_clips cfg (countdown_start sc)) = []"
    by (auto simp: filter_empty_conv is_typing_def dest: countdown_clips_role)
  have g3: "filter is_typing (expl_clips cfg res) = []"
    by (auto simp: filter_empty_conv is_typing_def dest: expl_clips_role)
  have g4: "filter is_typing (hold_clips (total_duration sc) (reveal_start_time sc) (holds s)) = []"
    by (auto simp: filter_empty_conv is_typing_def dest: hold_clips_role)
  have "filter is_typing (layers sc) = clips s"
    by (simp add: ls g1 g2 g3 g4 is_typing_def)
  moreover have "layer_end (last (clips s)) = current_time s"
    using inv by (simp add: lines_inv_def)
  ultimately have last: "last_line_end sc = layer_end (last (filter is_typing (layers sc)))"
    by (simp add: lle)
  show ?thesis
    using digits cds last by (simp add: countdown_clips_eq pil_to_clip_def)
qed

theorem countdown_layers_witness:
  "\<exists>sc. build_puzzle_clip fixed_pitch video_config
           [str ''2+2=4'', str ''3+3=7'', str ''5+5=10''] 1 (str ''seven is wrong'') (str ''FIND'')
           = Inr sc
      \<and> countdown_start sc = 103 / 15
      \<and> filter (\<lambda>c. role c = CountdownDigit) (layers sc)
           = map (\<lambda>i. \<lparr> role = CountdownDigit,
                         picture = Number (COUNTDOWN_SECONDS video_config - int i),
                         start = countdown_start sc + real i, duration = 1,
                         pos_y = H video_config - 500 \<rparr>)
               [0..<nat (COUNTDOWN_SECONDS video_config)]
      \<and> countdown_start sc = last_line_end sc + PRE_COUNTDOWN_PAUSE_S video_config
      \<and> last_line_end sc = layer_end (last (filter is_typing (layers sc)))"
proof -
  let ?b = "build_puzzle_clip fixed_pitch video_config
           [str ''2+2=4'', str ''3+3=7'', str ''5+5=10''] 1 (str ''seven is wrong'') (str ''FIND'')"
  obtain sc where sc: "?b = Inr sc"
    using demo_scene by (cases ?b) simp_all
  have cd: "countdown_start sc = 103 / 15"
    using demo_scene by (simp add: sc)
  note digits = countdown_layers [OF sc]
  from sc cd digits [THEN conjunct1] digits [THEN conjunct2, THEN conjunct1]
    digits [THEN conjunct2, THEN conjunct2]
  show ?thesis by (intro exI [of _ sc] conjI)
qed

text \<open>
  The sign-off scene in general (gap and hold duration not negative): the typed lines
  are chained by the gap, every hold ends with the scene, and the scene lasts until the
  end of the last typing plus the gap plus the hold duration.
\<close>

lemma signoff_inv_step:
  assumes inv: "signoff_inv cfg (cl, typed, now)" and gap: "0 \<le> SIGNOFF_GAP_S cfg"
    and res: "create_typing_animation_clip cfg img text_i y now fs sp sw = Inr (Some res)"
  shows "signoff_inv cfg (cl @ [typing_layer (SignoffTyping i) res], typed @ [(i, res)],
           clip_end res + SIGNOFF_GAP_S cfg)"
proof -
  have st: "clip_start res = now" and le: "now \<le> clip_end res"
    using res by (rule create_Some(1), rule create_Some(5))
  have chain: "start ((cl @ [typing_layer (SignoffTyping i) res]) ! Suc j)
                 = layer_end ((cl @ [typing_layer (SignoffTyping i) res]) ! j) + SIGNOFF_GAP_S cfg"
    if "Suc j < length (cl @ [typing_layer (SignoffTyping i) res])" for j
  proof (cases "Suc j < length cl")
    case True
    then show ?thesis using inv by (simp add: signoff_inv_def nth_append)
  next
    case False
    with that have j: "Suc j = length cl" by simp
    then have "cl \<noteq> []" by auto
    then have "now = layer_end (last cl) + SIGNOFF_GAP_S cfg"
      using inv by (simp add: signoff_inv_def)
    moreover have "last cl = cl ! j"
    proof -
      have "length cl - 1 = j" using j by simp
      then show ?thesis using \<open>cl \<noteq> []\<close> by (simp add: last_conv_nth)
    qed
    ultimately show ?thesis using j st by (simp add: nth_append typing_layer_def)
  qed
  have older: "\<forall>c \<in> set cl. layer_end c \<le> clip_end res + SIGNOFF_GAP_S cfg"
    using inv le gap by (auto simp: signoff_inv_def)
  show ?thesis
    unfolding signoff_inv_def
    using inv gap older chain
    by (simp add: signoff_inv_def is_signoff_typing_def)
qed

lemma type_signoff_inv:
  assumes "type_signoff cfg img ls st = Inr st'" and "signoff_inv cfg st"
    and "0 \<le> SIGNOFF_GAP_S cfg"
  shows "signoff_inv cfg st'"
  using assms(1,2)
proof (induction ls arbitrary: st)
  case Nil
  then show ?case by (cases st) auto
next
  case (Cons l ls)
  obtain i text_i y where l: "l = (i, text_i, y)" by (rule prod_cases3)
  obtain cl typed now where st: "st = (cl, typed, now)" by (rule prod_cases3)
  show ?case
  proof (cases "create_typing_animation_clip cfg img text_i y now (SIGNOFF_FONT_SIZE cfg)
             (SIGNOFF_TYPING_SPEED_CPS cfg) 0")
    case (Inl e)
    then show ?thesis using Cons.prems l st by simp
  next
    case (Inr ro)
    show ?thesis
    proof (cases ro)
      case None
      then show ?thesis using Cons Inr l st by simp
    next
      case (Some res)
      have "signoff_inv cfg (cl @ [typing_layer (SignoffTyping i) res], typed @ [(i, res)],
              clip_end res + SIGNOFF_GAP_S cfg)"
        using Cons.prems(2) [unfolded st] assms(3) Inr [unfolded Some] by (rule signoff_inv_step)
      then show ?thesis using Cons.prems(1) Inr Some l st Cons.IH by simp
    qed
  qed
qed

lemma signoff_timing:
  assumes built: "build_signoff_clip cfg img = Inr (Some sc)"
    and gap: "0 \<le> SIGNOFF_GAP_S cfg" and hold: "0 \<le> SIGNOFF_HOLD_DURATION_S cfg"
  shows "signoff_duration sc
           = layer_end (last (filter is_signoff_typing (signoff_layers sc)))
               + SIGNOFF_GAP_S cfg + SIGNOFF_HOLD_DURATION_S cfg"
    and "\<forall>c \<in> set (signoff_layers sc). \<not> is_signoff_typing c \<longrightarrow>
           layer_end c = signoff_duration sc"
    and "\<forall>j. Suc j < length (filter is_signoff_typing (signoff_layers sc)) \<longrightarrow>
           start (filter is_signoff_typing (signoff_layers sc) ! Suc j)
             = layer_end (filter is_signoff_typing (signoff_layers sc) ! j) + SIGNOFF_GAP_S cfg"
proof -
  from built obtain cl typed now where
    ts: "type_signoff cfg img (enumerate 0 (SIGNOFF_LINES cfg)) ([], [], 0) = Inr (cl, typed, now)"
    and ne: "typed \<noteq> []"
    and sc: "sc = \<lparr> signoff_layers = cl @ map (\<lambda>(i, res).
                      pil_to_clip (SignoffHold i) (Still (final_text res)) (clip_end res)
                        (max 0 (now + SIGNOFF_HOLD_DURATION_S cfg - clip_end res)) (clip_pos_y res))
                      typed,
                   signoff_duration = now + SIGNOFF_HOLD_DURATION_S cfg \<rparr>"
    by (auto simp: build_signoff_clip_def Let_def split: sum.splits if_splits)
  have inv0: "signoff_inv cfg ([], [], 0)" by (simp add: signoff_inv_def)
  have inv: "signoff_inv cfg (cl, typed, now)" using ts inv0 gap by (rule type_signoff_inv)
  have ends: "map (\<lambda>(i, res). clip_end res) typed = map layer_end cl"
    using inv by (simp add: signoff_inv_def)
  then have "length typed = length cl" by (metis length_map)
  with ne have cl: "cl \<noteq> []" by auto
  let ?holds = "map (\<lambda>(i, res).
                      pil_to_clip (SignoffHold i) (Still (final_text res)) (clip_end res)
                        (max 0 (now + SIGNOFF_HOLD_DURATION_S cfg - clip_end res)) (clip_pos_y res))
                      typed"
  have f1: "filter is_signoff_typing cl = cl" using inv by (simp add: signoff_inv_def)
  have f2: "filter is_signoff_typing ?holds = []"
    by (auto simp: filter_empty_conv is_signoff_typing_def)
  have typing: "filter is_signoff_typing (signoff_layers sc) = cl" by (simp add: sc f1 f2)
  have now: "now = layer_end (last cl) + SIGNOFF_GAP_S cfg"
    using inv cl by (simp add: signoff_inv_def)
  show "signoff_duration sc
           = layer_end (last (filter is_signoff_typing (signoff_layers sc)))
               + SIGNOFF_GAP_S cfg + SIGNOFF_HOLD_DURATION_S cfg"
    using typing by (simp add: now sc)
  have before: "clip_end res \<le> now" if "(i, res) \<in> set typed" for i res
  proof -
    from that have "clip_end res \<in> set (map (\<lambda>(i, res). clip_end res) typed)" by force
    then have "clip_end res \<in> layer_end ` set cl" by (simp add: ends)
    then show ?thesis using inv by (auto simp: signoff_inv_def)
  qed
  show "\<forall>c \<in> set (signoff_layers sc). \<not> is_signoff_typing c \<longrightarrow>
           layer_end c = signoff_duration sc"
  proof (intro ballI impI)
    fix c assume c: "c \<in> set (signoff_layers sc)" and n: "\<not> is_signoff_typing c"
    from c n inv have "c \<in> set ?holds" by (auto simp: sc signoff_inv_def)
    then obtain i res where "(i, res) \<in> set typed"
      and "c = pil_to_clip (SignoffHold i) (Still (final_text res)) (clip_end res)
                 (max 0 (now + SIGNOFF_HOLD_DURATION_S cfg - clip_end res)) (clip_pos_y res)"
      by auto
    then show "layer_end c = signoff_duration sc"
      using before [of i res] hold by (simp add: sc max_def)
  qed
  show "\<forall>j. Suc j < length (filter is_signoff_typing (signoff_layers sc)) \<longrightarrow>
           start (filter is_signoff_typing (signoff_layers sc) ! Suc j)
             = layer_end (filter is_signoff_typing (signoff_layers sc) ! j) + SIGNOFF_GAP_S cfg"
    using inv by (simp add: typing signoff_inv_def)
qed

text \<open>
  C8. The sign-off loop sets \<open>current_time = anim.end + gap\<close> after every line, the last
  one included, and the scene's duration is \<open>current_time + hold_tail\<close>. For the
  configured sign-off (four lines at 30 characters per second, gap 0.2 s, hold 1.5 s) each
  line starts 0.2 s after the previous one ends and the last line is typed at 2.7 s; every
  hold ends at the scene's duration, which is 4.4 s, not 2.7 + 1.5 = 4.2 s.
\<close>

theorem signoff_tail_includes_gap:
  "(case build_signoff_clip video_config box_raster of
      Inr (Some sc) \<Rightarrow>
        map (\<lambda>c. (role c, start c, layer_end c)) (signoff_layers sc)
          = [(SignoffTyping 0, 0, 2 / 3), (SignoffTyping 1, 13 / 15, 41 / 30),
             (SignoffTyping 2, 47 / 30, 2), (SignoffTyping 3, 11 / 5, 27 / 10),
             (SignoffHold 0, 2 / 3, 22 / 5), (SignoffHold 1, 41 / 30, 22 / 5),
             (SignoffHold 2, 2, 22 / 5), (SignoffHold 3, 27 / 10, 22 / 5)]
        \<and> signoff_duration sc = 22 / 5
        \<and> 27 / 10 + SIGNOFF_HOLD_DURATION_S video_config = 21 / 5
    | _ \<Rightarrow> False)"
  by (simp add: build_signoff_clip_def create_typing_animation_clip_def py_div_def Let_def
      video_config_def str_def total_chars_def enumerate_eq_zip clip_end_def typing_layer_def
      pil_to_clip_def layer_end_def upt_conv_Cons)

lemma list_index_absent: "x \<notin> set xs \<Longrightarrow> list_index xs x = Inl ValueError"
  by (induction xs) auto

lemma create_total:
  assumes "CURSOR_BLINK_RATE_HZ cfg \<noteq> 0"
  shows "\<exists>ro. create_typing_animation_clip cfg img txt y st fs sp sw = Inr ro
              \<and> (ro = None \<longleftrightarrow> txt = [])"
  using assms
  by (simp add: create_typing_animation_clip_def py_div_def Let_def max_def)

lemma type_lines_total:
  assumes "CURSOR_BLINK_RATE_HZ cfg \<noteq> 0"
  shows "\<exists>s'. type_lines cfg img k ils s = Inr s'"
proof (induction ils arbitrary: s)
  case Nil
  show ?case by simp
next
  case (Cons il ils)
  obtain i line where il: "il = (i, line)" by (cases il)
  obtain ro where "create_typing_animation_clip cfg img line (y_pos s) (current_time s)
             (PUZZLE_LINE_FONT_SIZE cfg) (PUZZLE_TYPING_SPEED_CPS cfg) (PUZZLE_STROKE_WIDTH cfg)
               = Inr ro"
    using create_total [OF assms] by blast
  then show ?case using Cons.IH il by (cases ro) simp_all
qed

lemma type_signoff_total:
  assumes "CURSOR_BLINK_RATE_HZ cfg \<noteq> 0"
  shows "\<exists>st'. type_signoff cfg img ls st = Inr st'"
proof (induction ls arbitrary: st)
  case Nil
  obtain cl typed now where "st = (cl, typed, now)" by (rule prod_cases3)
  then show ?case by simp
next
  case (Cons l ls)
  obtain i text_i y where l: "l = (i, text_i, y)" by (rule prod_cases3)
  obtain cl typed now where st: "st = (cl, typed, now)" by (rule prod_cases3)
  obtain ro where "create_typing_animation_clip cfg img text_i y now (SIGNOFF_FONT_SIZE cfg)
             (SIGNOFF_TYPING_SPEED_CPS cfg) 0 = Inr ro"
    using create_total [OF assms] by blast
  then show ?case using Cons.IH l st by (cases ro) simp_all
qed

lemma build_signoff_total:
  assumes "CURSOR_BLINK_RATE_HZ cfg \<noteq> 0"
  shows "\<exists>so. build_signoff_clip cfg img = Inr so"
proof -
  obtain st where "type_signoff cfg img (enumerate 0 (SIGNOFF_LINES cfg)) ([], [], 0) = Inr st"
    using type_signoff_total [OF assms] by blast
  then show ?thesis by (cases st) (auto simp: build_signoff_clip_def Let_def)
qed

lemma wrap_to_width_total: "\<exists>w. wrap_to_width e txt font_size max_width = Inr w"
  using width_chars_ge_1 [of e font_size max_width]
  by (simp add: wrap_to_width_def textwrap_wrap_def Let_def)

lemma wrap_all_total: "\<exists>ws. wrap_all e ls font_size max_width = Inr ws"
proof (induction ls)
  case Nil
  show ?case by simp
next
  case (Cons l ls)
  obtain w where "wrap_to_width e l font_size max_width = Inr w"
    using wrap_to_width_total by blast
  then show ?case using Cons.IH by auto
qed

lemma puzzle_timeline_total:
  assumes hz: "CURSOR_BLINK_RATE_HZ cfg \<noteq> 0" and title: "wt \<noteq> []"
  shows "\<exists>sc. puzzle_timeline cfg img k wt wl we = Inr sc"
proof -
  obtain title_res where
    t: "create_typing_animation_clip cfg img wt 250 (1 / 5) (TITLE_FONT_SIZE cfg)
       (TITLE_TYPING_SPEED_CPS cfg) (TITLE_STROKE_WIDTH cfg) = Inr (Some title_res)"
    using create_total [OF hz, of img wt] title by (metis option.exhaust)
  define s0 where "s0 = \<lparr> clips = [typing_layer TitleTyping title_res], holds = [], ends = [],
                    y_pos = LINE_START_Y cfg, current_time = clip_end title_res \<rparr>"
  obtain s where s: "type_lines cfg img k (enumerate 0 wl) s0 = Inr s"
    using type_lines_total [OF hz] by blast
  have inv0: "lines_inv k s0" by (simp add: lines_inv_def s0_def is_typing_def)
  have inv: "lines_inv k s" using s inv0 by (rule type_lines_inv)
  note le = line_end_eq [OF inv]
  obtain res where "create_typing_animation_clip cfg img we 300
           (current_time s + PRE_COUNTDOWN_PAUSE_S cfg + real_of_int (COUNTDOWN_SECONDS cfg)
              + REVEAL_TO_EXPLANATION_DELAY_S cfg)
           (EXPLANATION_FONT_SIZE cfg) (EXPLANATION_TYPING_SPEED_CPS cfg)
           (PUZZLE_STROKE_WIDTH cfg) = Inr res"
    using create_total [OF hz] by blast
  with t s le show ?thesis
    by (simp add: puzzle_timeline_def s0_def [symmetric] Let_def)
qed

lemma build_puzzle_clip_total:
  assumes hz: "CURSOR_BLINK_RATE_HZ cfg \<noteq> 0"
    and title: "wrap_to_width e title (TITLE_FONT_SIZE cfg) (MAX_TEXT_WIDTH_PX cfg) \<noteq> Inr []"
  shows "\<exists>sc. build_puzzle_clip e cfg lines k expl title = Inr sc"
proof -
  obtain wt where wt: "wrap_to_width e title (TITLE_FONT_SIZE cfg) (MAX_TEXT_WIDTH_PX cfg) = Inr wt"
    using wrap_to_width_total by blast
  with title have ne: "wt \<noteq> []" by simp
  obtain wl where wl: "wrap_all e lines (PUZZLE_LINE_FONT_SIZE cfg) (MAX_TEXT_WIDTH_PX cfg) = Inr wl"
    using wrap_all_total by blast
  obtain we where we: "wrap_to_width e (upper e expl) (EXPLANATION_FONT_SIZE cfg)
                         (MAX_TEXT_WIDTH_PX cfg) = Inr we"
    using wrap_to_width_total by blast
  from puzzle_timeline_total [OF hz ne] wt wl we show ?thesis
    by (simp add: build_puzzle_clip_def)
qed

text \<open>
  C9. When the text of the erroneous line is not among the puzzle lines, \<open>lines.index\<close>
  raises ValueError, the handler sets the anomaly index to 0, and job processing builds
  the puzzle scene with index 0 and the sign-off scene; nothing is raised (the cursor
  blink rate being non-zero and the wrapped title non-empty, as for any job).
\<close>

theorem missing_anomaly_defaults_to_first_line:
  assumes "dict_get (text_of_erroneous_line p) [] \<notin> set (dict_get (puzzle_lines_with_error p) [])"
    and "CURSOR_BLINK_RATE_HZ cfg \<noteq> 0"
    and "wrap_to_width e video_title (TITLE_FONT_SIZE cfg) (MAX_TEXT_WIDTH_PX cfg) \<noteq> Inr []"
  shows "anomaly_index p = Inr 0
       \<and> (\<exists>puzzle_clip signoff_clip.
             process_job e cfg p video_title = Inr (puzzle_clip, signoff_clip)
           \<and> build_puzzle_clip e cfg (dict_get (puzzle_lines_with_error p) []) 0
                (dict_get (explanation p) []) video_title = Inr puzzle_clip)"
proof -
  have k: "anomaly_index p = Inr 0"
    using list_index_absent [OF assms(1)] by (simp add: anomaly_index_def)
  obtain pc where pc: "build_puzzle_clip e cfg (dict_get (puzzle_lines_with_error p) []) 0
                (dict_get (explanation p) []) video_title = Inr pc"
    using build_puzzle_clip_total [OF assms(2,3)] by blast
  obtain so where so: "build_signoff_clip cfg (img_size e) = Inr so"
    using build_signoff_total [OF assms(2)] by blast
  from k pc so show ?thesis by (simp add: process_job_def)
qed

theorem missing_anomaly_defaults_to_first_line_witness:
  "dict_get (text_of_erroneous_line
       \<lparr> puzzle_lines_with_error = Some [str ''2+2=4'', str ''3+3=7'', str ''5+5=10''],
         explanation = Some (str ''seven is wrong''),
         text_of_erroneous_line = Some (str ''4+4=9'') \<rparr>) []
     \<notin> set (dict_get (puzzle_lines_with_error
       \<lparr> puzzle_lines_with_error = Some [str ''2+2=4'', str ''3+3=7'', str ''5+5=10''],
         explanation = Some (str ''seven is wrong''),
         text_of_erroneous_line = Some (str ''4+4=9'') \<rparr>) [])
   \<and> CURSOR_BLINK_RATE_HZ video_config \<noteq> 0
   \<and> wrap_to_width fixed_pitch (str ''FIND'') (TITLE_FONT_SIZE video_config)
         (MAX_TEXT_WIDTH_PX video_config) \<noteq> Inr []
   \<and> anomaly_index
         \<lparr> puzzle_lines_with_error = Some [str ''2+2=4'', str ''3+3=7'', str ''5+5=10''],
           explanation = Some (str ''seven is wrong''),
           text_of_erroneous_line = Some (str ''4+4=9'') \<rparr> = Inr 0
   \<and> (\<exists>puzzle_clip signoff_clip.
         process_job fixed_pitch video_config
           \<lparr> puzzle_lines_with_error = Some [str ''2+2=4'', str ''3+3=7'', str ''5+5=10''],
             explanation = Some (str ''seven is wrong''),
             text_of_erroneous_line = Some (str ''4+4=9'') \<rparr> (str ''FIND'')
           = Inr (puzzle_clip, signoff_clip)
       \<and> build_puzzle_clip fixed_pitch video_config
           [str ''2+2=4'', str ''3+3=7'', str ''5+5=10''] 0 (str ''seven is wrong'') (str ''FIND'')
           = Inr puzzle_clip)"
proof -
  define p where "p = \<lparr> puzzle_lines_with_error = Some [str ''2+2=4'', str ''3+3=7'', str ''5+5=10''],
             explanation = Some (str ''seven is wrong''),
             text_of_erroneous_line = Some (str ''4+4=9'') \<rparr>"
  have h1: "dict_get (text_of_erroneous_line p) [] \<notin> set (dict_get (puzzle_lines_with_error p) [])"
    by (simp add: p_def dict_get_def str_def)
  have h2: "CURSOR_BLINK_RATE_HZ video_config \<noteq> 0" by (simp add: video_config_def)
  have h3: "wrap_to_width fixed_pitch (str ''FIND'') (TITLE_FONT_SIZE video_config)
              (MAX_TEXT_WIDTH_PX video_config) \<noteq> Inr []"
    by (simp add: wrap_to_width_def fixed_pitch_def video_config_def str_def)
  from missing_anomaly_defaults_to_first_line [OF h1 h2 h3]
  have "anomaly_index p = Inr 0
       \<and> (\<exists>puzzle_clip signoff_clip.
             process_job fixed_pitch video_config p (str ''FIND'') = Inr (puzzle_clip, signoff_clip)
           \<and> build_puzzle_clip fixed_pitch video_config
                [str ''2+2=4'', str ''3+3=7'', str ''5+5=10''] 0 (str ''seven is wrong'')
                (str ''FIND'') = Inr puzzle_clip)"
    by (simp add: p_def dict_get_def)
  with h1 h2 h3 show ?thesis unfolding p_def by (intro conjI) simp_all
qed

section \<open>Properties of the puzzle scene in double precision\<close>

text \<open>
  The rounding at work: \<open>0.2\<close> is not a double, and \<open>0.1 + 0.2\<close> is
  \<open>0.30000000000000004\<close>.
\<close>

lemmas double_defs = double_round_def binade_def pow2_def round_half_even_def Let_def

lemma double_round_examples:
  "double_round (1 / 5) = 3602879701896397 / 2 ^ 54"
  "double_round (double_round (1 / 10) + double_round (1 / 5)) = 1351079888211149 / 2 ^ 52"
  "double_round (- 1 / 3) = - 6004799503160661 / 2 ^ 54"
  "double_round 0 = 0"
  by (simp_all add: double_defs)

text \<open>
  The error of one rounding: half the spacing of the doubles around \<open>x\<close>, which is at
  most \<open>2\<close> to the \<open>-53\<close> times \<open>\<bar>x\<bar>\<close> for a normal \<open>x\<close> and \<open>2\<close> to the \<open>-1075\<close> for a
  subnormal one.
\<close>

lemma round_half_even_error: "\<bar>real_of_int (round_half_even y) - y\<bar> \<le> 1 / 2"
proof -
  define f where "f = \<lfloor>y\<rfloor>"
  have lo: "real_of_int f \<le> y" and hi: "y < real_of_int f + 1"
    by (simp_all add: f_def)
  have r: "round_half_even y
             = (if y - real_of_int f < 1 / 2 then f
                else if 1 / 2 < y - real_of_int f then f + 1
                else if even f then f else f + 1)"
    by (simp add: round_half_even_def Let_def f_def)
  show ?thesis
  proof (cases "y - real_of_int f < 1 / 2")
    case True
    then show ?thesis using lo r by simp
  next
    case False
    then have "\<bar>real_of_int f - y\<bar> \<le> 1 / 2 \<or> 1 / 2 < y - real_of_int f" by linarith
    moreover have "\<bar>real_of_int (f + 1) - y\<bar> \<le> 1 / 2" using False hi by simp
    ultimately show ?thesis using False r by auto
  qed
qed

lemma pow2_powi: "pow2 q = 2 powi q"
  by (simp add: pow2_def power_int_def power_one_over)

lemma pow2_pos: "0 < pow2 q"
  by (simp add: pow2_powi)

lemma binade_up_le: "1 \<le> y \<Longrightarrow> pow2 (binade_up n y) \<le> y"
proof (induction n y rule: binade_up.induct)
  case (1 n x)
  show ?case
  proof (cases "n = 0 \<or> x < 2")
    case True
    then show ?thesis using "1.prems" by (simp add: pow2_def)
  next
    case False
    then have "pow2 (binade_up (n - 1) (x / 2)) \<le> x / 2"
      using "1.IH" by simp
    moreover have "pow2 (1 + binade_up (n - 1) (x / 2)) = 2 * pow2 (binade_up (n - 1) (x / 2))"
      by (simp add: pow2_powi power_int_add)
    ultimately show ?thesis using False by (simp del: binade_up.simps add: binade_up.simps [of n x])
  qed
qed

lemma binade_down_le:
  "0 \<le> y \<Longrightarrow> - int n < binade_down n y \<Longrightarrow> pow2 (binade_down n y) \<le> y"
proof (induction n y rule: binade_down.induct)
  case (1 n x)
  show ?case
  proof (cases "n = 0 \<or> 1 \<le> x")
    case True
    then show ?thesis using "1.prems" by (auto simp: pow2_def)
  next
    case False
    then have b: "binade_down n x = binade_down (n - 1) (2 * x) - 1"
      by (simp del: binade_down.simps add: binade_down.simps [of n x])
    have "- int (n - 1) < binade_down (n - 1) (2 * x)"
      using "1.prems"(2) False unfolding b by simp
    then have "pow2 (binade_down (n - 1) (2 * x)) \<le> 2 * x"
      using "1.IH" False "1.prems"(1) by simp
    moreover have "pow2 (binade_down (n - 1) (2 * x) - 1) = pow2 (binade_down (n - 1) (2 * x)) / 2"
      by (simp add: pow2_powi power_int_diff)
    ultimately show ?thesis unfolding b by simp
  qed
qed

lemma binade_le:
  assumes "- 1022 \<le> binade x"
  shows "pow2 (binade x) \<le> \<bar>x\<bar>"
proof (cases "1 \<le> \<bar>x\<bar>")
  case True
  then have "binade x = binade_up 1023 \<bar>x\<bar>" by (simp only: binade_def if_True)
  then show ?thesis using binade_up_le [OF True, of 1023] by (simp only:)
next
  case False
  then have b: "binade x = binade_down 1074 \<bar>x\<bar>" by (simp only: binade_def if_False)
  have "- int 1074 < binade_down 1074 \<bar>x\<bar>" using assms unfolding b by linarith
  from binade_down_le [OF abs_ge_zero this] show ?thesis by (simp only: b)
qed

lemma double_round_error: "\<bar>double_round x - x\<bar> \<le> \<bar>x\<bar> / 2 ^ 53 + 1 / 2 ^ 1075"
proof -
  define q where "q = max (binade x) (- 1022) - 52"
  define p where "p = pow2 q"
  have p: "0 < p" by (simp add: p_def pow2_pos)
  have dr: "double_round x = real_of_int (round_half_even (x / p)) * p"
    by (simp add: double_round_def Let_def q_def p_def)
  have "double_round x - x = (real_of_int (round_half_even (x / p)) - x / p) * p"
    using p by (simp add: dr algebra_simps)
  then have "\<bar>double_round x - x\<bar> = \<bar>real_of_int (round_half_even (x / p)) - x / p\<bar> * p"
    using p by (simp add: abs_mult)
  also have "\<dots> \<le> 1 / 2 * p"
    using round_half_even_error [of "x / p"] p by (intro mult_right_mono) simp_all
  finally have half: "\<bar>double_round x - x\<bar> \<le> p / 2" by simp
  show ?thesis
  proof (cases "- 1022 \<le> binade x")
    case True
    then have "q = binade x - 52" by (simp add: q_def)
    then have "p = pow2 (binade x) / 2 ^ 52"
      by (simp add: p_def pow2_powi power_int_diff)
    then have "p / 2 = pow2 (binade x) / 2 ^ 53" by simp
    also have "\<dots> \<le> \<bar>x\<bar> / 2 ^ 53"
      using binade_le [OF True] by (simp add: divide_right_mono)
    finally show ?thesis using half by simp
  next
    case False
    then have "q = - 1074" by (simp add: q_def)
    then have "p / 2 = 1 / 2 ^ 1075" by (simp add: p_def pow2_def)
    moreover have "0 \<le> \<bar>x\<bar> / 2 ^ 53" by simp
    ultimately show ?thesis using half by linarith
  qed
qed

text \<open>The roundings that the two scenes below go through.\<close>

lemma double_round_at:
  "double_round (1 / 5) = 3602879701896397 / 2 ^ 54"
  "double_round 4 = 4"
  "double_round (1 / 4) = 1 / 2 ^ 2"
  "double_round (1 / 1000000) = 4722366482869645 / 2 ^ 72"
  "double_round (1 / 3) = 6004799503160661 / 2 ^ 54"
  "double_round (4803839602528529 / 9007199254740992) = 4803839602528529 / 2 ^ 53"
  "double_round (15612478708217719 / 18014398509481984) = 1951559838527215 / 2 ^ 51"
  "double_round (21617278211378381 / 18014398509481984) = 5404319552844595 / 2 ^ 52"
  "double_round (5404319552844595 / 4503599627370496) = 5404319552844595 / 2 ^ 52"
  "double_round (27922317689697075 / 4503599627370496) = 6980579422424269 / 2 ^ 50"
  "double_round (7543529375845581 / 1125899906842624) = 7543529375845581 / 2 ^ 50"
  "double_round (9907919180215091 / 4503599627370496) = 2476979795053773 / 2 ^ 50"
  "double_round (14411518807585587 / 4503599627370496) = 3602879701896397 / 2 ^ 50"
  "double_round (18915118434956083 / 4503599627370496) = 4728779608739021 / 2 ^ 50"
  "double_round (23418718062326579 / 4503599627370496) = 5854679515581645 / 2 ^ 50"
  "double_round (51040795776865623 / 9007199254740992) = 6380099472108203 / 2 ^ 50"
  "double_round (12009599006321323 / 2251799813685248) = 3002399751580331 / 2 ^ 49"
  "double_round (22517998136852481 / 4503599627370496) = 5"
  "double_round (3602879701896397 / 1125899906842624) = 3602879701896397 / 2 ^ 50"
  "double_round (4728779608739021 / 1125899906842624) = 4728779608739021 / 2 ^ 50"
  "double_round (5854679515581645 / 1125899906842624) = 5854679515581645 / 2 ^ 50"
  "double_round (6980579422424269 / 1125899906842624) = 6980579422424269 / 2 ^ 50"
  "double_round (55844635379394153 / 9007199254740992) = 6980579422424269 / 2 ^ 50"
  "double_round (13961158844848539 / 2251799813685248) = 3490289711212135 / 2 ^ 49"
  "double_round (4 / 3) = 6004799503160661 / 2 ^ 52"
  "double_round (27622077714539041 / 18014398509481984) = 863189928579345 / 2 ^ 49"
  "double_round (5 / 3) = 7505999378950827 / 2 ^ 52"
  "double_round (21917518186536415 / 4503599627370496) = 684922443329263 / 2 ^ 47"
  "double_round 2 = 2"
  "double_round 5 = 5"
  "double_round (966397420039919 / 140737488355328) = 966397420039919 / 2 ^ 47"
  "double_round (1670084861816559 / 140737488355328) = 1670084861816559 / 2 ^ 47"
  "double_round (1740453605994223 / 140737488355328) = 1740453605994223 / 2 ^ 47"
  "double_round (1107134908395247 / 140737488355328) = 1107134908395247 / 2 ^ 47"
  "double_round (1247872396750575 / 140737488355328) = 1247872396750575 / 2 ^ 47"
  "double_round (1388609885105903 / 140737488355328) = 1388609885105903 / 2 ^ 47"
  "double_round (1529347373461231 / 140737488355328) = 1529347373461231 / 2 ^ 47"
  "double_round (7 / 15) = 4203359652212463 / 2 ^ 53"
  "double_round (115592390435842735 / 9007199254740992) = 7224524402240171 / 2 ^ 49"
  "double_round (8068949332372139 / 562949953421312) = 8068949332372139 / 2 ^ 49"
  "double_round (5817149518686891 / 562949953421312) = 5817149518686891 / 2 ^ 49"
  "double_round (9757799192636075 / 1125899906842624) = 2439449798159019 / 2 ^ 48"
  "double_round (5329259559055087 / 562949953421312) = 5329259559055087 / 2 ^ 49"
  "double_round (13360678894532473 / 1125899906842624) = 1670084861816559 / 2 ^ 47"
  by (simp_all add: double_defs)

text \<open>With no rounding, the builder is the one of the exact model.\<close>

lemma fl_clip_end_exact: "fl_clip_end (\<lambda>x. x) r = clip_end r"
  by (simp add: fl_clip_end_def clip_end_def)

lemma fl_create_exact:
  "fl_create_typing_animation_clip (\<lambda>x. x) cfg img line y st fs sp sw
     = create_typing_animation_clip cfg img line y st fs sp sw"
  by (simp add: fl_create_typing_animation_clip_def create_typing_animation_clip_def)

lemma fl_type_lines_exact:
  "fl_type_lines (\<lambda>x. x) cfg img k ils s = type_lines cfg img k ils s"
  by (induction ils arbitrary: s)
    (auto simp: fl_create_exact fl_clip_end_exact split: sum.splits option.splits)

lemma fl_hold_clips_exact: "fl_hold_clips (\<lambda>x. x) td rv hs = hold_clips td rv hs"
  by (induction hs) (simp_all add: Let_def)

lemma fl_countdown_clips_exact: "fl_countdown_clips (\<lambda>x. x) cfg cs = countdown_clips cfg cs"
  by (simp add: fl_countdown_clips_def countdown_clips_def)

lemma fl_expl_clips_exact: "fl_expl_clips (\<lambda>x. x) cfg res = expl_clips cfg res"
  by (simp add: fl_expl_clips_def expl_clips_def fl_clip_end_exact split: option.splits)

lemma fl_puzzle_timeline_exact:
  "fl_puzzle_timeline (\<lambda>x. x) cfg img k wt wl we = puzzle_timeline cfg img k wt wl we"
  by (simp add: fl_puzzle_timeline_def puzzle_timeline_def fl_create_exact
      fl_type_lines_exact fl_hold_clips_exact fl_countdown_clips_exact fl_expl_clips_exact
      fl_clip_end_exact Let_def split: sum.splits option.splits)

lemma fl_build_puzzle_clip_exact:
  "fl_build_puzzle_clip (\<lambda>x. x) e cfg lines k expl title
     = build_puzzle_clip e cfg lines k expl title"
  by (simp add: fl_build_puzzle_clip_def build_puzzle_clip_def fl_puzzle_timeline_exact
      split: sum.splits)

lemma fl_layer_end_typing [simp]: "fl_layer_end rd (typing_layer r res) = fl_clip_end rd res"
  by (simp add: fl_layer_end_def typing_layer_def fl_clip_end_def)

lemma fl_layer_end_pil [simp]: "fl_layer_end rd (pil_to_clip r p s d y) = rd (s + d)"
  by (simp add: pil_to_clip_def fl_layer_end_def)

lemma fl_lines_inv_step:
  assumes "fl_lines_inv rd k s"
  shows "fl_lines_inv rd k
           \<lparr> clips = clips s @ [typing_layer (LineTyping i) res],
             holds = holds s @ [\<lparr> h_index = i, h_img = final_text res, h_size = canvas_size res,
                                  h_anchor = anchor res, h_pos_y = y_pos s,
                                  h_start = fl_clip_end rd res, is_anomaly = (int i = k) \<rparr>],
             ends = ends s @ [fl_clip_end rd res],
             y_pos = y_pos s + snd (canvas_size res) + gap,
             current_time = fl_clip_end rd res \<rparr>"
  using assms unfolding fl_lines_inv_def by (auto simp: is_typing_def)

lemma fl_type_lines_inv:
  assumes "fl_type_lines rd cfg img k ils s = Inr s'" and "fl_lines_inv rd k s"
  shows "fl_lines_inv rd k s'"
  using assms
proof (induction ils arbitrary: s)
  case Nil
  then show ?case by simp
next
  case (Cons il ils)
  obtain i line where il: "il = (i, line)" by (cases il)
  show ?case
  proof (cases "fl_create_typing_animation_clip rd cfg img line (y_pos s) (current_time s)
             (PUZZLE_LINE_FONT_SIZE cfg) (PUZZLE_TYPING_SPEED_CPS cfg) (PUZZLE_STROKE_WIDTH cfg)")
    case (Inl e)
    then show ?thesis using Cons.prems il by simp
  next
    case (Inr ro)
    show ?thesis
    proof (cases ro)
      case None
      then show ?thesis using Cons Inr il by simp
    next
      case (Some res)
      have step: "fl_lines_inv rd k
           \<lparr> clips = clips s @ [typing_layer (LineTyping i) res],
             holds = holds s @ [\<lparr> h_index = i, h_img = final_text res, h_size = canvas_size res,
                                  h_anchor = anchor res, h_pos_y = y_pos s,
                                  h_start = fl_clip_end rd res, is_anomaly = (int i = k) \<rparr>],
             ends = ends s @ [fl_clip_end rd res],
             y_pos = y_pos s + snd (canvas_size res) + MIN_VERTICAL_GAP_BETWEEN_PUZZLE_LINES cfg,
             current_time = fl_clip_end rd res \<rparr>"
        using Cons.prems(2) by (rule fl_lines_inv_step)
      show ?thesis
        using Cons.prems(1) Inr Some il Cons.IH [OF _ step] by simp
    qed
  qed
qed

lemma fl_type_lines_prefix:
  assumes "fl_type_lines rd cfg img k ils s = Inr s'"
  shows "\<exists>ext. clips s' = clips s @ ext"
  using assms
proof (induction ils arbitrary: s)
  case Nil
  then show ?case by simp
next
  case (Cons il ils)
  obtain i line where il: "il = (i, line)" by (cases il)
  from Cons.prems il show ?case
    by (auto split: sum.splits option.splits dest!: Cons.IH)
qed

lemma py_max_total: "xs \<noteq> [] \<Longrightarrow> \<exists>m. py_max xs = Inr m"
  by (induction xs rule: py_max.induct) auto

lemma fl_hold_clips_sound:
  assumes "c \<in> set (fl_hold_clips rd td rv hs)"
  shows "\<exists>h \<in> set hs. role c = LineHold (h_index h) \<and> start c = h_start h \<and> 0 < duration c
           \<and> duration c = rd ((if is_anomaly h then td else rv) - h_start h)"
  using assms
  by (induction hs) (auto simp: Let_def max_def split: if_splits)

lemma fl_hold_clips_complete:
  assumes "h \<in> set hs" and "0 < rd ((if is_anomaly h then td else rv) - h_start h)"
  shows "\<exists>c \<in> set (fl_hold_clips rd td rv hs). role c = LineHold (h_index h) \<and> start c = h_start h"
  using assms
  by (induction hs) (auto simp: Let_def max_def split: if_splits)

lemma fl_countdown_clips_role:
  "c \<in> set (fl_countdown_clips rd cfg cs) \<Longrightarrow> role c = CountdownDigit"
  by (auto simp: fl_countdown_clips_def)

lemma fl_hold_clips_role: "c \<in> set (fl_hold_clips rd td rv hs) \<Longrightarrow> \<exists>i. role c = LineHold i"
  by (drule fl_hold_clips_sound) auto

lemma fl_expl_clips_role:
  "c \<in> set (fl_expl_clips rd cfg res) \<Longrightarrow> role c = ExplanationTyping \<or> role c = ExplanationHold"
  by (auto simp: fl_expl_clips_def split: option.splits)

lemma fl_puzzle_timeline_Inr:
  assumes "fl_puzzle_timeline rd cfg img k wt wl we = Inr sc"
  obtains title_res s res where
    "fl_lines_inv rd k s"
    and "typing_layer TitleTyping title_res \<in> set (clips s)"
    and "countdown_start sc = rd (last_line_end sc + PRE_COUNTDOWN_PAUSE_S cfg)"
    and "reveal_start_time sc = rd (countdown_start sc + real_of_int (COUNTDOWN_SECONDS cfg))"
    and "layers sc = clips s @ fl_countdown_clips rd cfg (countdown_start sc)
           @ fl_expl_clips rd cfg res
           @ [pil_to_clip TitleHold (Still (final_text title_res)) (fl_clip_end rd title_res)
                (max 0 (rd (reveal_start_time sc - fl_clip_end rd title_res))) 250]
           @ fl_hold_clips rd (total_duration sc) (reveal_start_time sc) (holds s)"
proof -
  from assms obtain title_res where
    t: "fl_create_typing_animation_clip rd cfg img wt 250 (rd (1 / 5)) (TITLE_FONT_SIZE cfg)
       (TITLE_TYPING_SPEED_CPS cfg) (TITLE_STROKE_WIDTH cfg) = Inr (Some title_res)"
    by (auto simp: fl_puzzle_timeline_def split: sum.splits option.splits)
  define s0 where "s0 = \<lparr> clips = [typing_layer TitleTyping title_res], holds = [], ends = [],
                    y_pos = LINE_START_Y cfg, current_time = fl_clip_end rd title_res \<rparr>"
  from assms t obtain s where
    s: "fl_type_lines rd cfg img k (enumerate 0 wl) s0 = Inr s"
    by (auto simp: fl_puzzle_timeline_def s0_def split: sum.splits option.splits)
  have inv0: "fl_lines_inv rd k s0" by (simp add: fl_lines_inv_def s0_def is_typing_def)
  have inv: "fl_lines_inv rd k s" using s inv0 by (rule fl_type_lines_inv)
  from fl_type_lines_prefix [OF s] have title: "typing_layer TitleTyping title_res \<in> set (clips s)"
    by (auto simp: s0_def)
  from assms t s obtain line_end res where
    "sc = \<lparr> layers = clips s
                   @ fl_countdown_clips rd cfg (rd (line_end + PRE_COUNTDOWN_PAUSE_S cfg))
                   @ fl_expl_clips rd cfg res
                   @ [pil_to_clip TitleHold (Still (final_text title_res)) (fl_clip_end rd title_res)
                        (max 0 (rd (rd (rd (line_end + PRE_COUNTDOWN_PAUSE_S cfg)
                                  + real_of_int (COUNTDOWN_SECONDS cfg))
                                    - fl_clip_end rd title_res))) 250]
                   @ fl_hold_clips rd
                       (case res of None \<Rightarrow> rd (rd (line_end + PRE_COUNTDOWN_PAUSE_S cfg)
                                                + real_of_int (COUNTDOWN_SECONDS cfg))
                        | Some r \<Rightarrow> rd (fl_clip_end rd r + EXPLANATION_HOLD_DURATION_S cfg))
                       (rd (rd (line_end + PRE_COUNTDOWN_PAUSE_S cfg)
                          + real_of_int (COUNTDOWN_SECONDS cfg))) (holds s),
                 total_duration =
                   (case res of None \<Rightarrow> rd (rd (line_end + PRE_COUNTDOWN_PAUSE_S cfg)
                                                + real_of_int (COUNTDOWN_SECONDS cfg))
                    | Some r \<Rightarrow> rd (fl_clip_end rd r + EXPLANATION_HOLD_DURATION_S cfg)),
                 last_line_end = line_end,
                 countdown_start = rd (line_end + PRE_COUNTDOWN_PAUSE_S cfg),
                 reveal_start_time = rd (rd (line_end + PRE_COUNTDOWN_PAUSE_S cfg)
                                       + real_of_int (COUNTDOWN_SECONDS cfg)) \<rparr>"
    by (auto simp: fl_puzzle_timeline_def s0_def [symmetric] Let_def
        split: sum.splits)
  with inv title show ?thesis
    by (intro that [of s title_res res]) simp_all
qed

lemma fl_build_puzzle_clip_Inr:
  assumes "fl_build_puzzle_clip rd e cfg lines k expl title = Inr sc"
  obtains wt wl we where "fl_puzzle_timeline rd cfg (img_size e) k wt wl we = Inr sc"
  using assms by (auto simp: fl_build_puzzle_clip_def split: sum.splits)

lemmas fl_scene_defs = fl_build_puzzle_clip_def fl_puzzle_timeline_def wrap_to_width_def
  fl_create_typing_animation_clip_def fl_countdown_clips_def py_div_def Let_def video_config_def
  fixed_pitch_def str_def total_chars_def enumerate_eq_zip fl_clip_end_def typing_layer_def
  pil_to_clip_def fl_layer_end_def upt_conv_Cons ascii_upper_def box_raster_def fl_expl_clips_def

text \<open>
  The scene of \<open>demo_scene\<close> in double precision. All its holds end at their end time:
  \<open>3.2 + 8.666666666666668\<close> is \<open>11.866666666666667\<close>, the reveal time.
\<close>

lemma fl_demo_scene:
  "(case fl_build_puzzle_clip double_round fixed_pitch video_config
           [str ''2+2=4'', str ''3+3=7'', str ''5+5=10''] 1 (str ''seven is wrong'') (str ''FIND'') of
      Inr sc \<Rightarrow>
        map (\<lambda>c. (role c, start c, duration c)) (layers sc)
          = [(TitleTyping, 3602879701896397 / 2 ^ 54, 6004799503160661 / 2 ^ 52),
             (LineTyping 0, 863189928579345 / 2 ^ 49, 7505999378950827 / 2 ^ 52),
             (LineTyping 1, 3602879701896397 / 2 ^ 50, 7505999378950827 / 2 ^ 52),
             (LineTyping 2, 684922443329263 / 2 ^ 47, 2),
             (CountdownDigit, 966397420039919 / 2 ^ 47, 1),
             (CountdownDigit, 1107134908395247 / 2 ^ 47, 1),
             (CountdownDigit, 1247872396750575 / 2 ^ 47, 1),
             (CountdownDigit, 1388609885105903 / 2 ^ 47, 1),
             (CountdownDigit, 1529347373461231 / 2 ^ 47, 1),
             (ExplanationTyping, 1740453605994223 / 2 ^ 47, 4203359652212463 / 2 ^ 53),
             (ExplanationHold, 7224524402240171 / 2 ^ 49, 3 / 2),
             (TitleHold, 863189928579345 / 2 ^ 49, 5817149518686891 / 2 ^ 49),
             (LineHold 0, 3602879701896397 / 2 ^ 50, 2439449798159019 / 2 ^ 48),
             (LineHold 1, 684922443329263 / 2 ^ 47, 5329259559055087 / 2 ^ 49),
             (LineHold 2, 966397420039919 / 2 ^ 47, 5)]
        \<and> total_duration sc = 8068949332372139 / 2 ^ 49
        \<and> reveal_start_time sc = 1670084861816559 / 2 ^ 47
        \<and> countdown_start sc = 966397420039919 / 2 ^ 47
    | Inl err \<Rightarrow> False)"
  by (simp add: fl_scene_defs double_round_at)

text \<open>
  A duration that is a rounded difference, added back to the start: the sum misses the
  end time by at most the errors of the two roundings.
\<close>

lemma rounded_end_near:
  fixes rd :: "real \<Rightarrow> real"
  assumes "d = rd (E - s)" and err: "\<forall>x. \<bar>rd x - x\<bar> \<le> u * \<bar>x\<bar> + eta"
  shows "\<bar>rd (s + d) - E\<bar> \<le> u * (\<bar>s + d\<bar> + \<bar>E - s\<bar>) + 2 * eta"
proof -
  have a: "\<bar>rd (s + d) - (s + d)\<bar> \<le> u * \<bar>s + d\<bar> + eta" using err by blast
  have b: "\<bar>d - (E - s)\<bar> \<le> u * \<bar>E - s\<bar> + eta" using err assms(1) by blast
  have "rd (s + d) - E = (rd (s + d) - (s + d)) + (d - (E - s))" by simp
  then have "\<bar>rd (s + d) - E\<bar> \<le> \<bar>rd (s + d) - (s + d)\<bar> + \<bar>d - (E - s)\<bar>"
    by (simp only: abs_triangle_ineq)
  also have "\<dots> \<le> (u * \<bar>s + d\<bar> + eta) + (u * \<bar>E - s\<bar> + eta)"
    using a b by (rule add_mono)
  also have "\<dots> = u * (\<bar>s + d\<bar> + \<bar>E - s\<bar>) + 2 * eta"
    by (simp add: algebra_simps)
  finally show ?thesis .
qed

text \<open>
  C1 (as amended). In a puzzle scene built with anomaly index \<open>k\<close>, whatever the rounding
  \<open>rd\<close> of the float operations: the reveal time is the rounded sum of the countdown start
  and the countdown length; every hold layer of a puzzle line has a positive duration,
  which is the rounded difference \<open>rd (E - start)\<close> between its end time \<open>E\<close> and its
  start, where \<open>E\<close> is the scene's total duration for the hold of line \<open>k\<close> and the reveal
  time for every other line; a typed line has a hold layer, starting at the end of its
  typing, exactly when that rounded difference is positive, so a hold whose computed
  duration is not positive is omitted; the title's hold exists, starts at the end of the
  title's typing and lasts \<open>max 0 (rd (reveal - start))\<close>. A hold therefore ends at
  \<open>rd (start + rd (E - start))\<close>, which is \<open>E\<close> in exact arithmetic (lemma
  \<open>exact_line_holds_end\<close>) and \<open>E\<close> up to rounding in doubles: when a rounding is off by
  at most \<open>u * \<bar>x\<bar> + eta\<close> (\<open>u\<close> is \<open>2\<close> to the \<open>-53\<close> and \<open>eta\<close> is \<open>2\<close> to the \<open>-1075\<close>
  for \<open>double_round\<close>), the hold of a line ends within \<open>u * (\<bar>start + duration\<bar> +
  \<bar>E - start\<bar>) + 2 * eta\<close> of \<open>E\<close>, and so does the title's hold, of the reveal time,
  when its rounded difference is not negative.
\<close>

theorem line_holds_last_the_rounded_difference:
  assumes "fl_build_puzzle_clip rd e cfg lines k expl title = Inr sc"
  shows "reveal_start_time sc = rd (countdown_start sc + real_of_int (COUNTDOWN_SECONDS cfg))
    \<and> (\<forall>c \<in> set (layers sc). \<forall>i. role c = LineHold i \<longrightarrow>
          0 < duration c
          \<and> duration c = rd ((if int i = k then total_duration sc else reveal_start_time sc)
                              - start c))
    \<and> (\<forall>a \<in> set (layers sc). \<forall>i. role a = LineTyping i \<longrightarrow>
          ((\<exists>c \<in> set (layers sc). role c = LineHold i \<and> start c = fl_layer_end rd a)
             \<longleftrightarrow> 0 < rd ((if int i = k then total_duration sc else reveal_start_time sc)
                            - fl_layer_end rd a)))
    \<and> (\<exists>c \<in> set (layers sc). role c = TitleHold)
    \<and> (\<forall>c \<in> set (layers sc). role c = TitleHold \<longrightarrow>
          duration c = max 0 (rd (reveal_start_time sc - start c))
          \<and> (\<exists>a \<in> set (layers sc). role a = TitleTyping \<and> start c = fl_layer_end rd a))
    \<and> ((\<forall>x. \<bar>rd x - x\<bar> \<le> u * \<bar>x\<bar> + eta) \<longrightarrow>
          (\<forall>c \<in> set (layers sc). \<forall>i. role c = LineHold i \<longrightarrow>
             \<bar>fl_layer_end rd c
                - (if int i = k then total_duration sc else reveal_start_time sc)\<bar>
               \<le> u * (\<bar>start c + duration c\<bar>
                        + \<bar>(if int i = k then total_duration sc else reveal_start_time sc)
                            - start c\<bar>) + 2 * eta)
          \<and> (\<forall>c \<in> set (layers sc).
                role c = TitleHold \<and> 0 \<le> rd (reveal_start_time sc - start c) \<longrightarrow>
             \<bar>fl_layer_end rd c - reveal_start_time sc\<bar>
               \<le> u * (\<bar>start c + duration c\<bar> + \<bar>reveal_start_time sc - start c\<bar>)
                   + 2 * eta))"
proof -
  from assms obtain wt wl we where "fl_puzzle_timeline rd cfg (img_size e) k wt wl we = Inr sc"
    by (rule fl_build_puzzle_clip_Inr)
  then obtain title_res s res where
    inv: "fl_lines_inv rd k s"
    and tl: "typing_layer TitleTyping title_res \<in> set (clips s)"
    and rv: "reveal_start_time sc = rd (countdown_start sc + real_of_int (COUNTDOWN_SECONDS cfg))"
    and ls: "layers sc = clips s @ fl_countdown_clips rd cfg (countdown_start sc)
           @ fl_expl_clips rd cfg res
           @ [pil_to_clip TitleHold (Still (final_text title_res)) (fl_clip_end rd title_res)
                (max 0 (rd (reveal_start_time sc - fl_clip_end rd title_res))) 250]
           @ fl_hold_clips rd (total_duration sc) (reveal_start_time sc) (holds s)"
    by (rule fl_puzzle_timeline_Inr)
  let ?E = "\<lambda>i. if int i = k then total_duration sc else reveal_start_time sc"
  have typed: "is_typing c" if "c \<in> set (clips s)" for c
    using inv that by (simp add: fl_lines_inv_def)
  have anomaly: "is_anomaly h = (int (h_index h) = k)" if "h \<in> set (holds s)" for h
    using inv that by (simp add: fl_lines_inv_def)
  have hold_of: "\<exists>h \<in> set (holds s). h_index h = i \<and> h_start h = fl_layer_end rd c"
    if "c \<in> set (clips s)" "role c = LineTyping i" for c i
    using inv that by (simp add: fl_lines_inv_def)
  have in_holds: "c \<in> set (fl_hold_clips rd (total_duration sc) (reveal_start_time sc) (holds s))"
    if "c \<in> set (layers sc)" "role c = LineHold i" for c i
    using that typed [of c] fl_countdown_clips_role [of c rd cfg "countdown_start sc"]
      fl_expl_clips_role [of c rd cfg res]
    by (auto simp: ls is_typing_def)
  have in_clips: "c \<in> set (clips s)" if "c \<in> set (layers sc)" "role c = LineTyping i" for c i
    using that fl_countdown_clips_role [of c rd cfg "countdown_start sc"]
      fl_expl_clips_role [of c rd cfg res]
      fl_hold_clips_role [of c rd "total_duration sc" "reveal_start_time sc" "holds s"]
    by (auto simp: ls)
  have held: "0 < duration c \<and> duration c = rd (?E i - start c)"
    if "c \<in> set (layers sc)" "role c = LineHold i" for c i
  proof -
    from fl_hold_clips_sound [OF in_holds [OF that]] obtain h where
      "h \<in> set (holds s)" "role c = LineHold (h_index h)" "start c = h_start h" "0 < duration c"
      "duration c = rd ((if is_anomaly h then total_duration sc else reveal_start_time sc)
                          - h_start h)"
      by blast
    then show ?thesis using that(2) anomaly [of h] by simp
  qed
  have omitted: "(\<exists>c \<in> set (layers sc). role c = LineHold i \<and> start c = fl_layer_end rd a)
                   \<longleftrightarrow> 0 < rd (?E i - fl_layer_end rd a)"
    if "a \<in> set (layers sc)" "role a = LineTyping i" for a i
  proof
    assume "\<exists>c \<in> set (layers sc). role c = LineHold i \<and> start c = fl_layer_end rd a"
    then obtain c where c: "c \<in> set (layers sc)" "role c = LineHold i"
      "start c = fl_layer_end rd a"
      by blast
    from held [OF c(1,2)] c(3) show "0 < rd (?E i - fl_layer_end rd a)" by simp
  next
    assume less: "0 < rd (?E i - fl_layer_end rd a)"
    from hold_of [OF in_clips [OF that] that(2)] obtain h where
      h: "h \<in> set (holds s)" "h_index h = i" "h_start h = fl_layer_end rd a" by blast
    then have "0 < rd ((if is_anomaly h then total_duration sc else reveal_start_time sc)
                        - h_start h)"
      using less anomaly [of h] by simp
    from fl_hold_clips_complete [of h "holds s" rd "total_duration sc" "reveal_start_time sc",
        OF h(1) this] h
    show "\<exists>c \<in> set (layers sc). role c = LineHold i \<and> start c = fl_layer_end rd a"
      by (auto simp: ls)
  qed
  have title_ex: "\<exists>c \<in> set (layers sc). role c = TitleHold" by (auto simp: ls)
  have title: "duration c = max 0 (rd (reveal_start_time sc - start c))
               \<and> (\<exists>a \<in> set (layers sc). role a = TitleTyping \<and> start c = fl_layer_end rd a)"
    if "c \<in> set (layers sc)" "role c = TitleHold" for c
  proof -
    have "c = pil_to_clip TitleHold (Still (final_text title_res)) (fl_clip_end rd title_res)
                (max 0 (rd (reveal_start_time sc - fl_clip_end rd title_res))) 250"
      using that typed [of c] fl_countdown_clips_role [of c rd cfg "countdown_start sc"]
        fl_expl_clips_role [of c rd cfg res]
        fl_hold_clips_role [of c rd "total_duration sc" "reveal_start_time sc" "holds s"]
      by (auto simp: ls is_typing_def)
    moreover have "typing_layer TitleTyping title_res \<in> set (layers sc)"
      using tl by (simp add: ls)
    ultimately show ?thesis
      by (intro conjI bexI [of _ "typing_layer TitleTyping title_res"]) simp_all
  qed
  have near_line: "\<bar>fl_layer_end rd c - ?E i\<bar>
                     \<le> u * (\<bar>start c + duration c\<bar> + \<bar>?E i - start c\<bar>) + 2 * eta"
    if err: "\<forall>x. \<bar>rd x - x\<bar> \<le> u * \<bar>x\<bar> + eta"
      and c: "c \<in> set (layers sc)" "role c = LineHold i" for c i
  proof -
    have "duration c = rd (?E i - start c)" using held [OF c] by simp
    then show ?thesis unfolding fl_layer_end_def using err by (rule rounded_end_near)
  qed
  have near_title: "\<bar>fl_layer_end rd c - reveal_start_time sc\<bar>
                     \<le> u * (\<bar>start c + duration c\<bar> + \<bar>reveal_start_time sc - start c\<bar>)
                         + 2 * eta"
    if err: "\<forall>x. \<bar>rd x - x\<bar> \<le> u * \<bar>x\<bar> + eta"
      and c: "c \<in> set (layers sc)" "role c = TitleHold"
        "0 \<le> rd (reveal_start_time sc - start c)" for c
  proof -
    have "duration c = rd (reveal_start_time sc - start c)"
      using title [OF c(1,2)] c(3) by simp
    then show ?thesis unfolding fl_layer_end_def using err by (rule rounded_end_near)
  qed
  from rv held omitted title_ex title
  have exact: "reveal_start_time sc = rd (countdown_start sc + real_of_int (COUNTDOWN_SECONDS cfg))
    \<and> (\<forall>c \<in> set (layers sc). \<forall>i. role c = LineHold i \<longrightarrow>
          0 < duration c \<and> duration c = rd (?E i - start c))
    \<and> (\<forall>a \<in> set (layers sc). \<forall>i. role a = LineTyping i \<longrightarrow>
          ((\<exists>c \<in> set (layers sc). role c = LineHold i \<and> start c = fl_layer_end rd a)
             \<longleftrightarrow> 0 < rd (?E i - fl_layer_end rd a)))
    \<and> (\<exists>c \<in> set (layers sc). role c = TitleHold)
    \<and> (\<forall>c \<in> set (layers sc). role c = TitleHold \<longrightarrow>
          duration c = max 0 (rd (reveal_start_time sc - start c))
          \<and> (\<exists>a \<in> set (layers sc). role a = TitleTyping \<and> start c = fl_layer_end rd a))"
    by blast
  from near_line near_title
  have near: "(\<forall>x. \<bar>rd x - x\<bar> \<le> u * \<bar>x\<bar> + eta) \<longrightarrow>
          (\<forall>c \<in> set (layers sc). \<forall>i. role c = LineHold i \<longrightarrow>
             \<bar>fl_layer_end rd c - ?E i\<bar>
               \<le> u * (\<bar>start c + duration c\<bar> + \<bar>?E i - start c\<bar>) + 2 * eta)
          \<and> (\<forall>c \<in> set (layers sc).
                role c = TitleHold \<and> 0 \<le> rd (reveal_start_time sc - start c) \<longrightarrow>
             \<bar>fl_layer_end rd c - reveal_start_time sc\<bar>
               \<le> u * (\<bar>start c + duration c\<bar> + \<bar>reveal_start_time sc - start c\<bar>)
                   + 2 * eta)"
    by blast
  from exact [THEN conjunct1] exact [THEN conjunct2, THEN conjunct1]
    exact [THEN conjunct2, THEN conjunct2, THEN conjunct1]
    exact [THEN conjunct2, THEN conjunct2, THEN conjunct2, THEN conjunct1]
    exact [THEN conjunct2, THEN conjunct2, THEN conjunct2, THEN conjunct2] near
  show ?thesis by (intro conjI)
qed

theorem line_holds_last_the_rounded_difference_witness:
  "\<exists>sc. fl_build_puzzle_clip double_round fixed_pitch video_config
           [str ''2+2=4'', str ''3+3=7'', str ''5+5=10''] 1 (str ''seven is wrong'') (str ''FIND'')
           = Inr sc
      \<and> map (\<lambda>c. (role c, start c, duration c)) (layers sc)
          = [(TitleTyping, 3602879701896397 / 2 ^ 54, 6004799503160661 / 2 ^ 52),
             (LineTyping 0, 863189928579345 / 2 ^ 49, 7505999378950827 / 2 ^ 52),
             (LineTyping 1, 3602879701896397 / 2 ^ 50, 7505999378950827 / 2 ^ 52),
             (LineTyping 2, 684922443329263 / 2 ^ 47, 2),
             (CountdownDigit, 966397420039919 / 2 ^ 47, 1),
             (CountdownDigit, 1107134908395247 / 2 ^ 47, 1),
             (CountdownDigit, 1247872396750575 / 2 ^ 47, 1),
             (CountdownDigit, 1388609885105903 / 2 ^ 47, 1),
             (CountdownDigit, 1529347373461231 / 2 ^ 47, 1),
             (ExplanationTyping, 1740453605994223 / 2 ^ 47, 4203359652212463 / 2 ^ 53),
             (ExplanationHold, 7224524402240171 / 2 ^ 49, 3 / 2),
             (TitleHold, 863189928579345 / 2 ^ 49, 5817149518686891 / 2 ^ 49),
             (LineHold 0, 3602879701896397 / 2 ^ 50, 2439449798159019 / 2 ^ 48),
             (LineHold 1, 684922443329263 / 2 ^ 47, 5329259559055087 / 2 ^ 49),
             (LineHold 2, 966397420039919 / 2 ^ 47, 5)]
      \<and> total_duration sc = 8068949332372139 / 2 ^ 49
      \<and> reveal_start_time sc
          = double_round (countdown_start sc + real_of_int (COUNTDOWN_SECONDS video_config))
      \<and> (\<forall>c \<in> set (layers sc). \<forall>i. role c = LineHold i \<longrightarrow>
            0 < duration c
            \<and> duration c = double_round ((if int i = 1 then total_duration sc
                                           else reveal_start_time sc) - start c))
      \<and> (\<forall>a \<in> set (layers sc). \<forall>i. role a = LineTyping i \<longrightarrow>
            ((\<exists>c \<in> set (layers sc). role c = LineHold i
                  \<and> start c = fl_layer_end double_round a)
               \<longleftrightarrow> 0 < double_round ((if int i = 1 then total_duration sc
                                          else reveal_start_time sc)
                                         - fl_layer_end double_round a)))
      \<and> (\<exists>c \<in> set (layers sc). role c = TitleHold)
      \<and> (\<forall>c \<in> set (layers sc). role c = TitleHold \<longrightarrow>
            duration c = max 0 (double_round (reveal_start_time sc - start c))
            \<and> (\<exists>a \<in> set (layers sc). role a = TitleTyping
                  \<and> start c = fl_layer_end double_round a))
      \<and> (\<forall>x. \<bar>double_round x - x\<bar> \<le> 1 / 2 ^ 53 * \<bar>x\<bar> + 1 / 2 ^ 1075)
      \<and> (\<forall>c \<in> set (layers sc). \<forall>i. role c = LineHold i \<longrightarrow>
             \<bar>fl_layer_end double_round c
                - (if int i = 1 then total_duration sc else reveal_start_time sc)\<bar>
               \<le> 1 / 2 ^ 53 * (\<bar>start c + duration c\<bar>
                        + \<bar>(if int i = 1 then total_duration sc else reveal_start_time sc)
                            - start c\<bar>) + 2 * (1 / 2 ^ 1075))
      \<and> (\<forall>c \<in> set (layers sc).
                role c = TitleHold \<and> 0 \<le> double_round (reveal_start_time sc - start c) \<longrightarrow>
             \<bar>fl_layer_end double_round c - reveal_start_time sc\<bar>
               \<le> 1 / 2 ^ 53 * (\<bar>start c + duration c\<bar> + \<bar>reveal_start_time sc - start c\<bar>)
                   + 2 * (1 / 2 ^ 1075))"
proof -
  let ?b = "fl_build_puzzle_clip double_round fixed_pitch video_config
           [str ''2+2=4'', str ''3+3=7'', str ''5+5=10''] 1 (str ''seven is wrong'') (str ''FIND'')"
  obtain sc where sc: "?b = Inr sc"
    using fl_demo_scene by (cases ?b) simp_all
  have ls: "map (\<lambda>c. (role c, start c, duration c)) (layers sc)
          = [(TitleTyping, 3602879701896397 / 2 ^ 54, 6004799503160661 / 2 ^ 52),
             (LineTyping 0, 863189928579345 / 2 ^ 49, 7505999378950827 / 2 ^ 52),
             (LineTyping 1, 3602879701896397 / 2 ^ 50, 7505999378950827 / 2 ^ 52),
             (LineTyping 2, 684922443329263 / 2 ^ 47, 2),
             (CountdownDigit, 966397420039919 / 2 ^ 47, 1),
             (CountdownDigit, 1107134908395247 / 2 ^ 47, 1),
             (CountdownDigit, 1247872396750575 / 2 ^ 47, 1),
             (CountdownDigit, 1388609885105903 / 2 ^ 47, 1),
             (CountdownDigit, 1529347373461231 / 2 ^ 47, 1),
             (ExplanationTyping, 1740453605994223 / 2 ^ 47, 4203359652212463 / 2 ^ 53),
             (ExplanationHold, 7224524402240171 / 2 ^ 49, 3 / 2),
             (TitleHold, 863189928579345 / 2 ^ 49, 5817149518686891 / 2 ^ 49),
             (LineHold 0, 3602879701896397 / 2 ^ 50, 2439449798159019 / 2 ^ 48),
             (LineHold 1, 684922443329263 / 2 ^ 47, 5329259559055087 / 2 ^ 49),
             (LineHold 2, 966397420039919 / 2 ^ 47, 5)]"
    and td: "total_duration sc = 8068949332372139 / 2 ^ 49"
    using fl_demo_scene by (simp_all add: sc)
  have err: "\<forall>x. \<bar>double_round x - x\<bar> \<le> 1 / 2 ^ 53 * \<bar>x\<bar> + 1 / 2 ^ 1075"
    using double_round_error by simp
  note held = line_holds_last_the_rounded_difference [OF sc, of "1 / 2 ^ 53" "1 / 2 ^ 1075"]
  note t1 = held [THEN conjunct1]
  note t2 = held [THEN conjunct2, THEN conjunct1]
  note t3 = held [THEN conjunct2, THEN conjunct2, THEN conjunct1]
  note t4 = held [THEN conjunct2, THEN conjunct2, THEN conjunct2, THEN conjunct1]
  note t5 = held [THEN conjunct2, THEN conjunct2, THEN conjunct2, THEN conjunct2, THEN conjunct1]
  note t6 = held [THEN conjunct2, THEN conjunct2, THEN conjunct2, THEN conjunct2, THEN conjunct2,
    THEN mp, OF err]
  from sc ls td t1 t2 t3 t4 t5 err t6 [THEN conjunct1] t6 [THEN conjunct2]
  show ?thesis by (intro exI [of _ sc] conjI)
qed

text \<open>
  C1 as stated fails in double precision where it says that the hold of line \<open>k\<close> ends
  exactly at the total duration: with the title \<open>"T"\<close>, the lines \<open>"a"\<close> and \<open>"b"\<close>,
  \<open>k = 0\<close> and no explanation, under \<open>video_config\<close>, the hold of line 0 starts at
  \<open>0.8666666666666667\<close> and lasts \<open>5.333333333333334\<close>, so it ends at
  \<open>6.200000000000001\<close>, one unit in the last place after the total duration \<open>6.2\<close>.
\<close>

theorem anomaly_hold_end_misses_total_duration:
  "(case fl_build_puzzle_clip double_round fixed_pitch video_config [str ''a'', str ''b''] 0 []
           (str ''T'') of
      Inr sc \<Rightarrow>
        total_duration sc = 6980579422424269 / 2 ^ 50
        \<and> map (\<lambda>c. (start c, duration c, fl_layer_end double_round c))
            (filter (\<lambda>c. role c = LineHold 0) (layers sc))
            = [(1951559838527215 / 2 ^ 51, 3002399751580331 / 2 ^ 49, 3490289711212135 / 2 ^ 49)]
        \<and> (3490289711212135 / 2 ^ 49 :: real) \<noteq> 6980579422424269 / 2 ^ 50
    | Inl err \<Rightarrow> False)"
  by (simp add: fl_scene_defs double_round_at)

end
